theory Spec2Isabelle
  imports Complex_Main
begin

section \<open>Shared JavaScript helpers\<close>

text \<open>
  The broker (\<^verbatim>\<open>bin/aria-bridge-host.js\<close>) and the reference bridge client
  (\<^verbatim>\<open>BridgeWebSocket\<close>) exchange JSON objects. A frame is modelled as a record of the
  fields the two programs read or write, each field optional (\<open>None\<close> is JavaScript's
  \<^verbatim>\<open>undefined\<close>), typed as the protocol declares them in \<^verbatim>\<open>src/types.ts\<close>; every other
  field of a frame travels in \<open>m_rest\<close>. Times are milliseconds as \<open>int\<close>.
\<close>

text \<open>\<^verbatim>\<open>x || d\<close> on a string: \<^verbatim>\<open>undefined\<close> and the empty string are falsy.\<close>

definition truthy :: "string option \<Rightarrow> bool" where
  "truthy x = (case x of None \<Rightarrow> False | Some s \<Rightarrow> s \<noteq> [])"

definition str_or :: "string option \<Rightarrow> string \<Rightarrow> string" where
  "str_or x d = (case x of None \<Rightarrow> d | Some s \<Rightarrow> if s = [] then d else s)"

text \<open>\<^verbatim>\<open>xs || d\<close> on an array: every array is truthy, the empty one too.\<close>

definition arr_or :: "'a list option \<Rightarrow> 'a list \<Rightarrow> 'a list" where
  "arr_or x d = (case x of None \<Rightarrow> d | Some xs \<Rightarrow> xs)"

text \<open>\<^verbatim>\<open>n || d\<close> on a number: \<^verbatim>\<open>undefined\<close> and \<open>0\<close> are falsy.\<close>

definition num_or :: "int option \<Rightarrow> int \<Rightarrow> int" where
  "num_or x d = (case x of None \<Rightarrow> d | Some n \<Rightarrow> if n = 0 then d else n)"

text \<open>\<^verbatim>\<open>String.prototype.toLowerCase\<close> on the ASCII letters.\<close>

definition lower_char :: "char \<Rightarrow> char" where
  "lower_char c =
     (case map_of (zip ''ABCDEFGHIJKLMNOPQRSTUVWXYZ'' ''abcdefghijklmnopqrstuvwxyz'') c of
        None \<Rightarrow> c | Some d \<Rightarrow> d)"

definition toLowerCase :: "string \<Rightarrow> string" where
  "toLowerCase s = map lower_char s"

text \<open>\<^verbatim>\<open>function lower(val)\<close>: the empty string for \<^verbatim>\<open>null\<close> and \<^verbatim>\<open>undefined\<close>.\<close>

definition lower :: "string option \<Rightarrow> string" where
  "lower val = (case val of None \<Rightarrow> [] | Some s \<Rightarrow> toLowerCase s)"

text \<open>\<^verbatim>\<open>Array.prototype.indexOf\<close>: the first position of the element, \<open>-1\<close> when absent.\<close>

fun indexOf :: "'a list \<Rightarrow> 'a \<Rightarrow> int" where
  "indexOf [] x = -1"
| "indexOf (y # ys) x =
     (if y = x then 0 else (let i = indexOf ys x in if i < 0 then -1 else i + 1))"

text \<open>Decimal rendering of a number inside a template literal.\<close>

definition digit_char :: "nat \<Rightarrow> char" where
  "digit_char n = (''0123456789'' ! (n mod 10))"

fun show_nat :: "nat \<Rightarrow> string" where
  "show_nat n = (if n < 10 then [digit_char n] else show_nat (n div 10) @ [digit_char n])"

declare show_nat.simps [simp del]

definition show_int :: "int \<Rightarrow> string" where
  "show_int i = (if i < 0 then CHR ''-'' # show_nat (nat (- i)) else show_nat (nat i))"

section \<open>Frames\<close>

record message =
  m_type :: "string option"
  m_level :: "string option"
  m_message :: "string option"
  m_id :: "string option"
  m_secret :: "string option"
  m_role :: "string option"
  m_clientId :: "string option"
  m_levels :: "string list option"
  m_capabilities :: "string list option"
  m_llm_filter :: "string option"
  m_mime :: "string option"
  m_data :: "string option"
  m_timestamp :: "int option"
  m_platform :: "string option"
  m_projectId :: "string option"
  m_route :: "string option"
  m_url :: "string option"
  m_protocol :: "int option"
  m_ok :: "bool option"
  m_error :: "string option"
  m_result :: "string option"
  m_reason :: "string option"
  m_retryAfterMs :: "int option"
  m_delivered :: "nat option"
  m_rest :: string

text \<open>The object literal \<^verbatim>\<open>{}\<close>; a frame is written as an update of it.\<close>

definition obj :: message where
  "obj = \<lparr> m_type = None, m_level = None, m_message = None, m_id = None, m_secret = None,
           m_role = None, m_clientId = None, m_levels = None, m_capabilities = None,
           m_llm_filter = None, m_mime = None, m_data = None, m_timestamp = None,
           m_platform = None, m_projectId = None, m_route = None, m_url = None,
           m_protocol = None, m_ok = None, m_error = None, m_result = None,
           m_reason = None, m_retryAfterMs = None, m_delivered = None, m_rest = [] \<rparr>"

section \<open>The bridge client (\<^verbatim>\<open>BridgeWebSocket\<close>)\<close>

text \<open>
  The fields of the class. \<open>ws_state\<close> holds the \<^verbatim>\<open>readyState\<close> of the current socket
  (\<open>0\<close> connecting, \<open>1\<close> open, \<open>2\<close> closing, \<open>3\<close> closed), \<open>None\<close> when \<^verbatim>\<open>this.ws\<close> is
  \<^verbatim>\<open>null\<close>. A timer handle is \<open>Some\<close> of the timer's delay once set, \<open>None\<close> when
  \<^verbatim>\<open>null\<close>. \<open>window_location\<close> is \<^verbatim>\<open>(href, pathname)\<close> where a \<^verbatim>\<open>window\<close> exists. The
  control handler returns its result (\<open>Inr\<close>) or the message of the error it threw
  (\<open>Inl\<close>); its reply is written in the step that receives the request.
\<close>

datatype wsdata = Malformed | Parsed message

record client =
  ws_state :: "nat option"
  secret :: string
  reconnectTimeout :: "int option"
  reconnectDelay :: int
  maxReconnectDelay :: int
  heartbeatInterval :: "int option"
  heartbeatTimeout :: "int option"
  heartbeatIntervalMs :: int
  heartbeatTimeoutMs :: int
  helloSent :: bool
  capabilities :: "string list"
  platform :: string
  projectId :: "string option"
  window_location :: "(string \<times> string) option"
  controlHandler :: "(message \<Rightarrow> string + string) option"
  buffer :: "message list"
  bufferLimit :: nat
  dropped :: nat

definition PROTOCOL_VERSION :: int where "PROTOCOL_VERSION = 2"
definition HEARTBEAT_INTERVAL_MS :: int where "HEARTBEAT_INTERVAL_MS = 15000"
definition HEARTBEAT_TIMEOUT_MS :: int where "HEARTBEAT_TIMEOUT_MS = 30000"
definition RECONNECT_INITIAL_DELAY_MS :: int where "RECONNECT_INITIAL_DELAY_MS = 1000"
definition RECONNECT_MAX_DELAY_MS :: int where "RECONNECT_MAX_DELAY_MS = 30000"
definition BUFFER_LIMIT :: nat where "BUFFER_LIMIT = 200"

text \<open>The constructor and the field initialisers.\<close>

definition new_client ::
  "string \<Rightarrow> string list \<Rightarrow> string \<Rightarrow> string option \<Rightarrow> client" where
  "new_client sec caps plat proj =
     \<lparr> ws_state = None, secret = sec, reconnectTimeout = None,
       reconnectDelay = RECONNECT_INITIAL_DELAY_MS, maxReconnectDelay = RECONNECT_MAX_DELAY_MS,
       heartbeatInterval = None, heartbeatTimeout = None,
       heartbeatIntervalMs = HEARTBEAT_INTERVAL_MS, heartbeatTimeoutMs = HEARTBEAT_TIMEOUT_MS,
       helloSent = False, capabilities = caps, platform = plat, projectId = proj,
       window_location = None, controlHandler = None,
       buffer = [], bufferLimit = BUFFER_LIMIT, dropped = 0 \<rparr>"

text \<open>Every operation returns the new state and the frames it wrote to the socket.\<close>

definition sendRaw :: "client \<Rightarrow> message \<Rightarrow> message list" where
  "sendRaw c m = (if ws_state c = Some 1 then [m] else [])"

text \<open>The frame \<^verbatim>\<open>sendHello\<close> builds, and the \<^verbatim>\<open>auth\<close> frame of \<^verbatim>\<open>onopen\<close>.\<close>

definition helloMessage :: "client \<Rightarrow> message" where
  "helloMessage c =
     (let hello = obj\<lparr> m_type := Some ''hello'', m_capabilities := Some (capabilities c),
                         m_platform := Some (platform c), m_projectId := projectId c,
                         m_protocol := Some PROTOCOL_VERSION \<rparr>
      in case window_location c of
           Some (href, pathname) \<Rightarrow>
             if platform c = ''web''
             then hello\<lparr> m_url := Some href, m_route := Some pathname \<rparr>
             else hello
         | None \<Rightarrow> hello)"

definition authMessage :: "client \<Rightarrow> message" where
  "authMessage c = obj\<lparr> m_type := Some ''auth'', m_secret := Some (secret c),
                           m_role := Some ''bridge'' \<rparr>"

definition sendHello :: "client \<Rightarrow> client \<times> message list" where
  "sendHello c =
     (if helloSent c then (c, [])
      else (c\<lparr> helloSent := True \<rparr>, sendRaw c (helloMessage c)))"

definition stopHeartbeat :: "client \<Rightarrow> client" where
  "stopHeartbeat c = c\<lparr> heartbeatInterval := None, heartbeatTimeout := None \<rparr>"

definition startHeartbeat :: "client \<Rightarrow> client" where
  "startHeartbeat c = (stopHeartbeat c)\<lparr> heartbeatInterval := Some (heartbeatIntervalMs c) \<rparr>"

definition setHeartbeatTimeout :: "client \<Rightarrow> client" where
  "setHeartbeatTimeout c = c\<lparr> heartbeatTimeout := Some (heartbeatTimeoutMs c) \<rparr>"

definition resetHeartbeatTimeout :: "client \<Rightarrow> client" where
  "resetHeartbeatTimeout c = (if heartbeatTimeout c \<noteq> None then setHeartbeatTimeout c else c)"

definition enqueue :: "client \<Rightarrow> message \<Rightarrow> client" where
  "enqueue c ev =
     (let c1 = (if length (buffer c) \<ge> bufferLimit c
                then c\<lparr> buffer := tl (buffer c), dropped := dropped c + 1 \<rparr>
                else c)
      in c1\<lparr> buffer := buffer c1 @ [ev] \<rparr>)"

definition drop_notice :: "nat \<Rightarrow> message" where
  "drop_notice n =
     obj\<lparr> m_type := Some ''info'', m_level := Some ''info'',
          m_message := Some (''bridge buffered drop count='' @ show_nat n) \<rparr>"

text \<open>The \<^verbatim>\<open>while (this.buffer.length)\<close> loop of \<^verbatim>\<open>flushBuffer\<close>: shift and send.\<close>

fun drain :: "message list \<Rightarrow> message list \<Rightarrow> message list \<times> message list" where
  "drain [] sent = ([], sent)"
| "drain (ev # rest) sent = drain rest (sent @ [ev])"

definition flushBuffer :: "client \<Rightarrow> client \<times> message list" where
  "flushBuffer c =
     (if ws_state c \<noteq> Some 1 then (c, [])
      else
        let (buf, sent) = drain (buffer c) [];
            c1 = c\<lparr> buffer := buf \<rparr>
        in if dropped c1 > 0
           then (c1\<lparr> dropped := 0 \<rparr>, sent @ [drop_notice (dropped c1)])
           else (c1, sent))"

text \<open>
  \<^verbatim>\<open>send(event)\<close>. \<^verbatim>\<open>validateAndRedact\<close> rewrites \<^verbatim>\<open>args\<close> and \<^verbatim>\<open>breadcrumbs\<close>, which a
  frame carries in \<open>m_rest\<close> only, so it is a parameter here: it returns the frame to
  send, or nothing for an event it rejects. An event with a type, a short message and no
  \<^verbatim>\<open>args\<close> comes back as it is.
\<close>

definition send :: "(message \<Rightarrow> message option) \<Rightarrow> client \<Rightarrow> message \<Rightarrow> client \<times> message list" where
  "send validateAndRedact c event =
     (case validateAndRedact event of
        None \<Rightarrow> (c, [])
      | Some safe \<Rightarrow> if ws_state c = Some 1 then (c, [safe]) else (enqueue c safe, []))"

definition scheduleReconnect :: "client \<Rightarrow> client" where
  "scheduleReconnect c =
     (if reconnectTimeout c \<noteq> None then c
      else c\<lparr> reconnectTimeout := Some (reconnectDelay c) \<rparr>)"

text \<open>The body of \<^verbatim>\<open>connect()\<close> up to the handlers: a new socket, still connecting.\<close>

definition connect :: "client \<Rightarrow> client" where
  "connect c = c\<lparr> ws_state := Some 0 \<rparr>"

text \<open>The timer callback of \<^verbatim>\<open>scheduleReconnect\<close>, and the \<^verbatim>\<open>catch\<close> of its \<^verbatim>\<open>connect()\<close>.\<close>

definition reconnect_timer :: "client \<Rightarrow> client" where
  "reconnect_timer c = connect (c\<lparr> reconnectTimeout := None \<rparr>)"

definition connect_catch :: "client \<Rightarrow> client" where
  "connect_catch c =
     c\<lparr> reconnectDelay := min (reconnectDelay c * 2) (maxReconnectDelay c) \<rparr>"

definition onopen :: "client \<Rightarrow> client \<times> message list" where
  "onopen c =
     (let c1 = c\<lparr> reconnectDelay := 1000, helloSent := False \<rparr>;
          c2 = startHeartbeat c1;
          auth = sendRaw c2 (authMessage c2);
          (c3, hello) = sendHello c2;
          (c4, flushed) = flushBuffer c3
      in (c4, auth @ hello @ flushed))"

definition onerror :: "client \<Rightarrow> client" where
  "onerror c = stopHeartbeat c"

definition onclose :: "client \<Rightarrow> client" where
  "onclose c = scheduleReconnect ((stopHeartbeat c)\<lparr> helloSent := False \<rparr>)"

definition disconnect :: "client \<Rightarrow> client" where
  "disconnect c =
     (let c1 = stopHeartbeat (c\<lparr> reconnectTimeout := None \<rparr>)
      in if ws_state c1 \<noteq> None then c1\<lparr> ws_state := None \<rparr> else c1)"

definition control_response :: "message \<Rightarrow> string + string \<Rightarrow> message" where
  "control_response msg r =
     (case r of
        Inr result \<Rightarrow> obj\<lparr> m_type := Some ''control_result'', m_id := m_id msg,
                           m_ok := Some True, m_result := Some result \<rparr>
      | Inl err \<Rightarrow> obj\<lparr> m_type := Some ''control_result'', m_id := m_id msg,
                        m_ok := Some False, m_error := Some err \<rparr>)"

definition handleIncoming :: "client \<Rightarrow> wsdata \<Rightarrow> client \<times> message list" where
  "handleIncoming c raw =
     (case raw of
        Malformed \<Rightarrow> (c, [])
      | Parsed msg \<Rightarrow>
          if m_type msg = Some ''pong'' then (resetHeartbeatTimeout c, [])
          else if m_type msg = Some ''ping'' then (c, sendRaw c (obj\<lparr> m_type := Some ''pong'' \<rparr>))
          else if m_type msg = Some ''control_request'' then
            (case controlHandler c of
               None \<Rightarrow> (c, [])
             | Some h \<Rightarrow> (c, sendRaw c (control_response msg (h msg))))
          else (c, []))"

text \<open>The heartbeat callbacks: \<^verbatim>\<open>sendPing\<close> and the expiry of the timeout.\<close>

definition sendPing :: "client \<Rightarrow> client \<times> message list" where
  "sendPing c = (setHeartbeatTimeout c, sendRaw c (obj\<lparr> m_type := Some ''ping'' \<rparr>))"

definition heartbeat_expired :: "client \<Rightarrow> client" where
  "heartbeat_expired c =
     (case ws_state c of None \<Rightarrow> c
      | Some r \<Rightarrow> c\<lparr> ws_state := Some (if r = 3 then 3 else 2) \<rparr>)"

text \<open>
  What can happen to a client: the socket's events, the timers and the public calls.
  \<open>SocketOpen\<close> and \<open>SocketClose\<close> set the socket's \<^verbatim>\<open>readyState\<close> before the handler runs.
\<close>

datatype client_event =
    SocketOpen
  | SocketMessage wsdata
  | SocketError
  | SocketClose
  | ReconnectTimer
  | ConnectRejected
  | HeartbeatTick
  | HeartbeatExpired
  | CallConnect
  | CallSend message
  | CallDisconnect

definition client_step ::
  "(message \<Rightarrow> message option) \<Rightarrow> client \<Rightarrow> client_event \<Rightarrow> client \<times> message list" where
  "client_step vr c e =
     (case e of
        SocketOpen \<Rightarrow> onopen (c\<lparr> ws_state := Some 1 \<rparr>)
      | SocketMessage raw \<Rightarrow> handleIncoming c raw
      | SocketError \<Rightarrow> (onerror c, [])
      | SocketClose \<Rightarrow> (onclose (c\<lparr> ws_state := map_option (\<lambda>_. 3) (ws_state c) \<rparr>), [])
      | ReconnectTimer \<Rightarrow> (reconnect_timer c, [])
      | ConnectRejected \<Rightarrow> (connect_catch c, [])
      | HeartbeatTick \<Rightarrow> sendPing c
      | HeartbeatExpired \<Rightarrow> (heartbeat_expired c, [])
      | CallConnect \<Rightarrow> (connect c, [])
      | CallSend ev \<Rightarrow> send vr c ev
      | CallDisconnect \<Rightarrow> (disconnect c, []))"

text \<open>A run: the frames written to the socket while the events happen, in order.\<close>

fun client_run ::
  "(message \<Rightarrow> message option) \<Rightarrow> client \<Rightarrow> client_event list \<Rightarrow> client \<times> message list" where
  "client_run vr c [] = (c, [])"
| "client_run vr c (e # es) =
     (let (c1, out1) = client_step vr c e;
          (c2, out2) = client_run vr c1 es
      in (c2, out1 @ out2))"

text \<open>A console event as the instrumentation hands it to \<^verbatim>\<open>send\<close>.\<close>

definition console_event :: "string \<Rightarrow> message" where
  "console_event s =
     obj\<lparr> m_type := Some ''console'', m_level := Some ''info'', m_message := Some s \<rparr>"

section \<open>The broker (\<^verbatim>\<open>bin/aria-bridge-host.js\<close>)\<close>

text \<open>
  A socket (or an HTTP bridge session object) is identified by a number. The closure
  variables of one \<^verbatim>\<open>wss.on('connection')\<close> callback are a \<open>conn\<close>; the maps and sets of
  \<^verbatim>\<open>startServer\<close> are the fields of \<open>broker\<close>. A JavaScript \<^verbatim>\<open>Set\<close> iterates in insertion
  order and is a duplicate-free list here. The keys of \<^verbatim>\<open>pendingControl\<close> are the \<^verbatim>\<open>id\<close>
  fields as received, \<^verbatim>\<open>undefined\<close> included.
\<close>

type_synonym sock = nat

record subscription =
  levels :: "string list"
  sub_capabilities :: "string list"
  llm_filter :: string

record bridge_meta =
  b_capabilities :: "string list"
  b_route :: "string option"
  b_url :: "string option"
  b_protocol :: int
  b_platform :: "string option"
  b_projectId :: "string option"

record pending =
  replyTo :: sock
  origin :: string

record conn =
  isAuthenticated :: bool
  role :: "string option"
  clientId :: "string option"
  authTimeout :: bool

record broker =
  host_secret :: string
  bridges :: "sock list"
  consumers :: "sock list"
  httpBridgeSessions :: "string \<Rightarrow> sock option"
  bridgeCapabilities :: "sock \<Rightarrow> bridge_meta option"
  consumerSubscriptions :: "sock \<Rightarrow> subscription option"
  pendingControl :: "string option \<Rightarrow> pending option"
  bridgeLastScreenshot :: "sock \<Rightarrow> int option"
  windowStart :: int
  windowCount :: nat
  readyState :: "sock \<Rightarrow> nat"
  kind_http :: "sock \<Rightarrow> bool"
  queue :: "sock \<Rightarrow> message list"
  lastSeen :: "sock \<Rightarrow> int"
  conns :: "sock \<Rightarrow> conn"

text \<open>
  What a handler does to the outside: a frame written to a socket, \<^verbatim>\<open>ws.close(code, reason)\<close>,
  the \<^verbatim>\<open>console.error\<close> of the \<^verbatim>\<open>catch\<close> block, an HTTP status. The \<^verbatim>\<open>console.log\<close> lines are
  left out.
\<close>

datatype action =
    Send sock message
  | Close sock nat string
  | ConsoleError
  | Respond nat

definition SCREENSHOT_RATE_LIMIT_MS :: int where "SCREENSHOT_RATE_LIMIT_MS = 2000"
definition FILTER_LEVELS :: "string list" where "FILTER_LEVELS = [''off'', ''minimal'', ''aggressive'']"
definition WINDOW_MS :: int where "WINDOW_MS = 10000"
definition WINDOW_LIMIT :: nat where "WINDOW_LIMIT = 500"
definition LEVEL_ORDER :: "string list" where "LEVEL_ORDER = [''errors'', ''warn'', ''info'', ''trace'']"

text \<open>\<^verbatim>\<open>Set.prototype.add\<close> and \<^verbatim>\<open>delete\<close>.\<close>

definition set_add :: "'a \<Rightarrow> 'a list \<Rightarrow> 'a list" where
  "set_add x xs = (if x \<in> set xs then xs else xs @ [x])"

definition set_delete :: "'a \<Rightarrow> 'a list \<Rightarrow> 'a list" where
  "set_delete x xs = removeAll x xs"

text \<open>The initial state of \<^verbatim>\<open>startServer\<close> with its secret, at the time it starts.\<close>

definition new_broker :: "string \<Rightarrow> int \<Rightarrow> broker" where
  "new_broker sec now =
     \<lparr> host_secret = sec, bridges = [], consumers = [],
       httpBridgeSessions = (\<lambda>_. None), bridgeCapabilities = (\<lambda>_. None),
       consumerSubscriptions = (\<lambda>_. None), pendingControl = (\<lambda>_. None),
       bridgeLastScreenshot = (\<lambda>_. None), windowStart = now, windowCount = 0,
       readyState = (\<lambda>_. 3), kind_http = (\<lambda>_. False), queue = (\<lambda>_. []),
       lastSeen = (\<lambda>_. 0),
       conns = (\<lambda>_. \<lparr> isAuthenticated = False, role = None, clientId = None,
                       authTimeout = False \<rparr>) \<rparr>"

subsection \<open>The routing predicates\<close>

definition filterEventForConsumer ::
  "message \<Rightarrow> subscription \<Rightarrow> int \<Rightarrow> broker \<Rightarrow> bool \<times> broker" where
  "filterEventForConsumer message consumerMeta now s =
     (let flt = toLowerCase (str_or (Some (llm_filter consumerMeta)) ''off'');
          s1 = (if now - windowStart s > WINDOW_MS
                then s\<lparr> windowStart := now, windowCount := 0 \<rparr> else s);
          s2 = s1\<lparr> windowCount := windowCount s1 + 1 \<rparr>
      in if windowCount s2 > WINDOW_LIMIT \<and> flt \<noteq> ''off''
         then (m_level message = Some ''error'', s2)
         else if flt = ''off'' then (True, s2)
         else
           let lvl = toLowerCase (str_or (m_level message) [])
           in if flt = ''minimal''
              then (if lvl = ''debug'' \<or> lvl = ''log'' then (False, s2) else (True, s2))
              else if flt = ''aggressive''
              then (if lvl = ''debug'' \<or> lvl = ''log'' \<or> lvl = ''info''
                    then (False, s2) else (True, s2))
              else (True, s2))"

text \<open>The parameter default \<^verbatim>\<open>logLevel = 'info'\<close> applies to \<^verbatim>\<open>undefined\<close> only.\<close>

definition getSubscriptionLevelForLogLevel :: "string option \<Rightarrow> string" where
  "getSubscriptionLevelForLogLevel logLevel =
     (let lvl = lower (Some (case logLevel of None \<Rightarrow> ''info'' | Some l \<Rightarrow> l))
      in if lvl = ''error'' then ''errors''
         else if lvl = ''warn'' then ''warn''
         else if lvl = ''debug'' then ''trace''
         else ''info'')"

definition subscriptionIncludesLevel :: "string list option \<Rightarrow> string option \<Rightarrow> bool" where
  "subscriptionIncludesLevel subscribedLevels eventLogLevel =
     (let eventLevel = getSubscriptionLevelForLogLevel eventLogLevel;
          eventIndex = indexOf LEVEL_ORDER eventLevel;
          lvls = map (\<lambda>l. lower (Some l)) (arr_or subscribedLevels [''errors''])
      in list_ex (\<lambda>sub. indexOf LEVEL_ORDER sub \<ge> eventIndex) lvls)"

definition bridgeHasCapability :: "string list option \<Rightarrow> string option \<Rightarrow> bool" where
  "bridgeHasCapability bridgeCaps capability =
     (let cap = lower capability
      in if cap = [] then False
         else cap \<in> set (map (\<lambda>c. lower (Some c)) (arr_or bridgeCaps [])))"

definition consumerWantsCapability :: "string list option \<Rightarrow> string option \<Rightarrow> bool" where
  "consumerWantsCapability consumerCaps capability =
     (let requested = filter (\<lambda>c. c \<noteq> []) (map (\<lambda>c. lower (Some c)) (arr_or consumerCaps []))
      in if requested = [] then True
         else lower capability \<in> set requested)"

definition gated_types :: "string list" where
  "gated_types = [''pageview'', ''screenshot'', ''control'', ''network'', ''navigation'']"

definition shouldRouteToConsumer ::
  "sock \<Rightarrow> message \<Rightarrow> sock \<Rightarrow> int \<Rightarrow> broker \<Rightarrow> bool \<times> broker" where
  "shouldRouteToConsumer consumer message bridgeWs now s =
     (let subscription = consumerSubscriptions s consumer;
          lvls = (case subscription of None \<Rightarrow> [''errors''] | Some sub \<Rightarrow> levels sub);
          requestedCapabilities =
            (case subscription of None \<Rightarrow> [] | Some sub \<Rightarrow> sub_capabilities sub);
          (consumerFilterOk, s1) =
            (case subscription of None \<Rightarrow> (True, s)
             | Some sub \<Rightarrow> filterEventForConsumer message sub now s)
      in if \<not> consumerFilterOk then (False, s1)
         else
           let effectiveLevel = str_or (m_level message) ''info''
           in if \<not> subscriptionIncludesLevel (Some lvls) (Some effectiveLevel) then (False, s1)
              else
                let messageType = toLowerCase (str_or (m_type message) [])
                in if messageType \<in> set gated_types
                   then
                     if \<not> consumerWantsCapability (Some requestedCapabilities) (Some messageType)
                     then (False, s1)
                     else if \<not> bridgeHasCapability
                                  (map_option b_capabilities (bridgeCapabilities s1 bridgeWs))
                                  (Some messageType)
                     then (False, s1)
                     else (True, s1)
                   else (True, s1))"

text \<open>
  The loop \<^verbatim>\<open>consumers.forEach\<close> with the test
  \<^verbatim>\<open>consumer.readyState === 1 && shouldRouteToConsumer(consumer, message, ws)\<close>: the consumers
  it selects, in order.
\<close>

fun routed :: "sock list \<Rightarrow> message \<Rightarrow> sock \<Rightarrow> int \<Rightarrow> broker \<Rightarrow> sock list \<times> broker" where
  "routed [] message bridgeWs now s = ([], s)"
| "routed (consumer # rest) message bridgeWs now s =
     (if readyState s consumer = 1
      then
        let (ok, s1) = shouldRouteToConsumer consumer message bridgeWs now s;
            (rs, s2) = routed rest message bridgeWs now s1
        in (if ok then consumer # rs else rs, s2)
      else routed rest message bridgeWs now s)"

text \<open>\<^verbatim>\<open>deliverToConsumers\<close>, the fan-out of the HTTP event endpoint.\<close>

definition deliverToConsumers :: "message \<Rightarrow> sock \<Rightarrow> int \<Rightarrow> broker \<Rightarrow> broker \<times> action list" where
  "deliverToConsumers message bridgeRef now s =
     (let (rs, s1) = routed (consumers s) message bridgeRef now s
      in (s1, map (\<lambda>consumer. Send consumer message) rs))"

subsection \<open>The WebSocket handlers\<close>

text \<open>\<^verbatim>\<open>ws.close(code, reason)\<close> starts the closing handshake: an open socket is closing.\<close>

definition ws_close :: "sock \<Rightarrow> broker \<Rightarrow> broker" where
  "ws_close ws s = s\<lparr> readyState := (readyState s)(ws := if readyState s ws = 3 then 3 else 2) \<rparr>"

text \<open>The \<^verbatim>\<open>if (!isAuthenticated)\<close> block.\<close>

definition handle_unauthenticated :: "sock \<Rightarrow> message \<Rightarrow> int \<Rightarrow> broker \<Rightarrow> broker \<times> action list" where
  "handle_unauthenticated ws message now s =
     (if m_type message = Some ''auth''
      then
        if m_secret message = Some (host_secret s)
        then
          let role' = str_or (m_role message) ''bridge'';
              clientId' = str_or (m_clientId message) (role' @ ''-'' @ show_int now);
              s1 = s\<lparr> conns := (conns s)(ws := \<lparr> isAuthenticated = True, role = Some role',
                                                   clientId = Some clientId',
                                                   authTimeout = False \<rparr>) \<rparr>;
              auth_success = obj\<lparr> m_type := Some ''auth_success'', m_role := Some role',
                                    m_clientId := Some clientId' \<rparr>
          in if role' = ''bridge''
             then (s1\<lparr> bridges := set_add ws (bridges s1) \<rparr>, [Send ws auth_success])
             else if role' = ''consumer''
             then (s1\<lparr> consumers := set_add ws (consumers s1) \<rparr>, [Send ws auth_success])
             else (ws_close ws s1, [Close ws 1008 (''Invalid role: '' @ role')])
        else (ws_close ws s, [Close ws 1008 ''Invalid secret''])
      else (ws_close ws s, [Close ws 1008 ''Authentication required'']))"

text \<open>A template literal prints \<^verbatim>\<open>null\<close> for the unset \<^verbatim>\<open>clientId\<close>.\<close>

definition clientId_text :: "conn \<Rightarrow> string" where
  "clientId_text c = (case clientId c of None \<Rightarrow> ''null'' | Some i \<Rightarrow> i)"

definition handle_hello :: "sock \<Rightarrow> message \<Rightarrow> broker \<Rightarrow> broker \<times> action list" where
  "handle_hello ws message s =
     (let capabilities' = arr_or (m_capabilities message) [];
          protocol' = num_or (m_protocol message) 1
      in (s\<lparr> bridgeCapabilities := (bridgeCapabilities s)(ws :=
                Some \<lparr> b_capabilities = capabilities', b_route = m_route message,
                       b_url = m_url message, b_protocol = protocol',
                       b_platform = m_platform message,
                       b_projectId = m_projectId message \<rparr>) \<rparr>,
          [Send ws (obj\<lparr> m_type := Some ''hello_ack'', m_clientId := clientId (conns s ws),
                          m_protocol := Some protocol' \<rparr>)]))"

text \<open>The \<^verbatim>\<open>control_result\<close> block, the same text in the bridge and the consumer branch.\<close>

definition handle_control_result :: "message \<Rightarrow> broker \<Rightarrow> broker \<times> action list" where
  "handle_control_result message s =
     (case pendingControl s (m_id message) of
        None \<Rightarrow> (s, [])
      | Some pending \<Rightarrow>
          if readyState s (replyTo pending) = 1
          then (s\<lparr> pendingControl := (pendingControl s)(m_id message := None) \<rparr>,
                [Send (replyTo pending) message])
          else (s, []))"

definition no_consumers_result :: "message \<Rightarrow> message" where
  "no_consumers_result message =
     obj\<lparr> m_type := Some ''control_result'', m_id := m_id message, m_ok := Some False,
          m_error := Some ''No consumers connected for control'' \<rparr>"

definition handle_bridge_control_request ::
  "sock \<Rightarrow> message \<Rightarrow> int \<Rightarrow> broker \<Rightarrow> broker \<times> action list" where
  "handle_bridge_control_request ws message now s =
     (let (rs, s1) = routed (consumers s) (message\<lparr> m_level := Some ''info'' \<rparr>) ws now s;
          delivered = length rs;
          s2 = (if delivered > 0
                then s1\<lparr> pendingControl := (pendingControl s1)(m_id message :=
                           Some \<lparr> replyTo = ws, origin = ''bridge'' \<rparr>) \<rparr>
                else s1)
      in (s2, map (\<lambda>consumer. Send consumer message) rs
              @ (if delivered = 0 then [Send ws (no_consumers_result message)] else [])))"

text \<open>\<^verbatim>\<open>Math.ceil(waitMs / 1000)\<close> on integers.\<close>

definition ceil_seconds :: "int \<Rightarrow> int" where
  "ceil_seconds waitMs = - ((- waitMs) div 1000)"

definition rate_limit_notice :: "string \<Rightarrow> int option \<Rightarrow> string \<Rightarrow> message" where
  "rate_limit_notice reason retry txt =
     obj\<lparr> m_type := Some ''rate_limit_notice'', m_reason := Some reason,
          m_retryAfterMs := retry, m_message := Some txt \<rparr>"

text \<open>The defaults the screenshot block fills in before forwarding.\<close>

definition fill_screenshot :: "message \<Rightarrow> int \<Rightarrow> message" where
  "fill_screenshot message now =
     (let m1 = (if m_timestamp message = None \<or> m_timestamp message = Some 0
                then message\<lparr> m_timestamp := Some now \<rparr> else message);
          m2 = (if \<not> truthy (m_platform m1) then m1\<lparr> m_platform := Some ''web'' \<rparr> else m1);
          m3 = (if \<not> truthy (m_level m2) then m2\<lparr> m_level := Some ''info'' \<rparr> else m2)
      in if \<not> truthy (m_message m3)
         then m3\<lparr> m_message := Some (''Screenshot: '' @
                     (if truthy (m_route m3) then the (m_route m3)
                      else str_or (m_url m3) ''unknown'')) \<rparr>
         else m3)"

definition handle_screenshot :: "sock \<Rightarrow> message \<Rightarrow> int \<Rightarrow> broker \<Rightarrow> broker \<times> action list" where
  "handle_screenshot ws message now s =
     (let bridgeCaps = bridgeCapabilities s ws
      in if (case bridgeCaps of None \<Rightarrow> True
             | Some meta \<Rightarrow> ''screenshot'' \<notin> set (b_capabilities meta))
         then (s, [Send ws (rate_limit_notice ''missing_capability'' None
                      ''Screenshot capability not advertised in hello'')])
         else
           let lastScreenshot = bridgeLastScreenshot s ws
           in if (case lastScreenshot of None \<Rightarrow> False
                  | Some l \<Rightarrow> l \<noteq> 0 \<and> now - l < SCREENSHOT_RATE_LIMIT_MS)
              then
                let waitMs = SCREENSHOT_RATE_LIMIT_MS - (now - the lastScreenshot)
                in (s, [Send ws (rate_limit_notice ''rate_limit'' (Some waitMs)
                          (''Screenshot rate limit: wait '' @ show_int (ceil_seconds waitMs)
                             @ ''s before next screenshot''))])
              else
                let (interestedConsumers, s1) = routed (consumers s) message ws now s
                in if interestedConsumers = []
                   then (s1, [Send ws (rate_limit_notice ''no_consumers'' None
                                ''No consumers subscribed to screenshot capability'')])
                   else
                     let s2 = s1\<lparr> bridgeLastScreenshot :=
                                     (bridgeLastScreenshot s1)(ws := Some now) \<rparr>
                     in if \<not> truthy (m_mime message) \<or> \<not> truthy (m_data message)
                        then (s2, [Send ws (rate_limit_notice ''invalid_format'' None
                                     ''Screenshot missing required fields: mime, data'')])
                        else (s2, map (\<lambda>consumer. Send consumer (fill_screenshot message now))
                                    interestedConsumers))"

text \<open>The last block of the bridge branch: every other frame is fanned out.\<close>

definition broadcast :: "sock \<Rightarrow> message \<Rightarrow> int \<Rightarrow> broker \<Rightarrow> broker \<times> action list" where
  "broadcast ws message now s =
     (let (rs, s1) = routed (consumers s) message ws now s
      in (s1, map (\<lambda>consumer. Send consumer message) rs))"

definition handle_subscribe :: "sock \<Rightarrow> message \<Rightarrow> broker \<Rightarrow> broker \<times> action list" where
  "handle_subscribe ws message s =
     (let levels' = arr_or (m_levels message) [''errors''];
          capabilities' = arr_or (m_capabilities message) [];
          llm_filter_raw = toLowerCase (str_or (m_llm_filter message) ''off'');
          llm_filter' = (if llm_filter_raw \<in> set FILTER_LEVELS then llm_filter_raw else ''off'')
      in (s\<lparr> consumerSubscriptions := (consumerSubscriptions s)(ws :=
                Some \<lparr> levels = levels', sub_capabilities = capabilities',
                       llm_filter = llm_filter' \<rparr>) \<rparr>,
          [Send ws (obj\<lparr> m_type := Some ''subscribe_ack'', m_clientId := clientId (conns s ws),
                          m_levels := Some levels', m_capabilities := Some capabilities',
                          m_llm_filter := Some llm_filter' \<rparr>)]))"

text \<open>\<^verbatim>\<open>targets.forEach\<close>: queue the request on an HTTP bridge, send it on a socket.\<close>

fun forward_control :: "sock list \<Rightarrow> message \<Rightarrow> broker \<Rightarrow> broker \<times> action list" where
  "forward_control [] payload s = (s, [])"
| "forward_control (bridgeWs # rest) payload s =
     (if kind_http s bridgeWs
      then forward_control rest payload
             (s\<lparr> queue := (queue s)(bridgeWs := queue s bridgeWs @ [payload]) \<rparr>)
      else
        let (s1, acts) = forward_control rest payload s
        in (s1, Send bridgeWs payload # acts))"

definition handle_consumer_control ::
  "sock \<Rightarrow> message \<Rightarrow> int \<Rightarrow> broker \<Rightarrow> broker \<times> action list" where
  "handle_consumer_control ws message now s =
     (let reqId = str_or (m_id message) (clientId_text (conns s ws) @ ''-'' @ show_int now);
          payload = message\<lparr> m_type := Some ''control_request'', m_id := Some reqId \<rparr>;
          targets = filter (\<lambda>bridgeWs. readyState s bridgeWs = 1
                              \<and> bridgeHasCapability
                                  (map_option b_capabilities (bridgeCapabilities s bridgeWs))
                                  (Some ''control''))
                      (bridges s)
      in if targets = []
         then (s, [Send ws (obj\<lparr> m_type := Some ''control_result'', m_id := Some reqId,
                                 m_ok := Some False,
                                 m_error := Some ''No bridge with control capability is connected'' \<rparr>)])
         else
           let s1 = s\<lparr> pendingControl := (pendingControl s)(Some reqId :=
                          Some \<lparr> replyTo = ws, origin = ''consumer'' \<rparr>) \<rparr>;
               (s2, acts) = forward_control targets payload s1
           in (s2, acts @ [Send ws (obj\<lparr> m_type := Some ''control_forwarded'',
                                          m_id := Some reqId,
                                          m_delivered := Some (length targets) \<rparr>)]))"

text \<open>
  \<^verbatim>\<open>ws.on('message')\<close> on the frames of the protocol: \<open>Parsed\<close> is a frame whose fields have
  the declared shapes, \<open>Malformed\<close> is text on which \<^verbatim>\<open>JSON.parse\<close> fails, so that the
  \<^verbatim>\<open>catch\<close> block runs. What the handler does with a JSON value of any other shape, where
  a block throws after it has written to a registry, is \<open>on_data\<close> below.
\<close>

definition on_message :: "sock \<Rightarrow> wsdata \<Rightarrow> int \<Rightarrow> broker \<Rightarrow> broker \<times> action list" where
  "on_message ws data now s =
     (case data of
        Malformed \<Rightarrow> (ws_close ws s, [ConsoleError, Close ws 1011 ''Internal error''])
      | Parsed message \<Rightarrow>
          if \<not> isAuthenticated (conns s ws) then handle_unauthenticated ws message now s
          else if m_type message = Some ''ping''
          then (s, [Send ws (obj\<lparr> m_type := Some ''pong'' \<rparr>)])
          else if role (conns s ws) = Some ''bridge''
          then
            if m_type message = Some ''hello'' then handle_hello ws message s
            else if m_type message = Some ''control_result'' then handle_control_result message s
            else if m_type message = Some ''control_request''
            then handle_bridge_control_request ws message now s
            else if m_type message = Some ''screenshot'' then handle_screenshot ws message now s
            else broadcast ws message now s
          else if role (conns s ws) = Some ''consumer''
          then
            if m_type message = Some ''subscribe'' then handle_subscribe ws message s
            else if m_type message = Some ''control_request'' \<or> m_type message = Some ''control''
            then handle_consumer_control ws message now s
            else if m_type message = Some ''control_result'' then handle_control_result message s
            else (s, [])
          else (s, []))"

text \<open>\<^verbatim>\<open>ws.on('close')\<close>.\<close>

definition on_close :: "sock \<Rightarrow> broker \<Rightarrow> broker" where
  "on_close ws s =
     (let c = conns s ws;
          s0 = s\<lparr> conns := (conns s)(ws := c\<lparr> authTimeout := False \<rparr>) \<rparr>;
          s1 = (if role c = Some ''bridge''
                then s0\<lparr> bridges := set_delete ws (bridges s0),
                         bridgeCapabilities := (bridgeCapabilities s0)(ws := None),
                         bridgeLastScreenshot := (bridgeLastScreenshot s0)(ws := None) \<rparr>
                else if role c = Some ''consumer''
                then s0\<lparr> consumers := set_delete ws (consumers s0),
                         consumerSubscriptions := (consumerSubscriptions s0)(ws := None) \<rparr>
                else s0)
      in s1\<lparr> pendingControl :=
               (\<lambda>id'. case pendingControl s1 id' of
                         None \<Rightarrow> None
                       | Some entry \<Rightarrow> if replyTo entry = ws then None else Some entry) \<rparr>)"

text \<open>\<^verbatim>\<open>wss.on('connection')\<close>: fresh closure variables, the auth timer armed; and the timer.\<close>

definition on_connection :: "sock \<Rightarrow> broker \<Rightarrow> broker" where
  "on_connection ws s =
     s\<lparr> readyState := (readyState s)(ws := 1),
        conns := (conns s)(ws := \<lparr> isAuthenticated = False, role = None, clientId = None,
                                   authTimeout = True \<rparr>) \<rparr>"

definition auth_timeout :: "sock \<Rightarrow> broker \<Rightarrow> broker \<times> action list" where
  "auth_timeout ws s =
     (if authTimeout (conns s ws)
      then
        let s1 = s\<lparr> conns := (conns s)(ws := (conns s ws)\<lparr> authTimeout := False \<rparr>) \<rparr>
        in if \<not> isAuthenticated (conns s ws)
           then (ws_close ws s1, [Close ws 1008 ''Authentication timeout''])
           else (s1, [])
      else (s, []))"

subsection \<open>Frames of any shape\<close>

text \<open>
  \<^verbatim>\<open>JSON.parse\<close> returns whatever the peer wrote. The handler reads the fields of the frame;
  on the JSON text \<^verbatim>\<open>null\<close> the first read, \<^verbatim>\<open>message.type\<close>, throws. Two blocks use a field
  as an array: the \<^verbatim>\<open>hello\<close> block calls \<^verbatim>\<open>capabilities.join\<close> and the \<^verbatim>\<open>subscribe\<close> block
  calls \<^verbatim>\<open>levels.join\<close> and \<^verbatim>\<open>capabilities.join\<close>, each inside the template of its
  \<^verbatim>\<open>console.log\<close>, after the block has stored the value with \<^verbatim>\<open>Map.set\<close> and before it
  sends its acknowledgement. A truthy value of such a field is an array of strings, or
  \<open>Other\<close>: a string, a number, an object or \<^verbatim>\<open>true\<close>, none of which has a \<^verbatim>\<open>join\<close>, so
  that the call throws a \<^verbatim>\<open>TypeError\<close>. A falsy value is replaced by the default, like an
  absent field. No other block reads the two fields.

  \<open>Json m lv cp\<close> is the JSON value with the fields of \<open>m\<close>, its \<^verbatim>\<open>levels\<close> being \<open>lv\<close> and its
  \<^verbatim>\<open>capabilities\<close> being \<open>cp\<close>; the other fields are taken with their declared types, as
  \<open>m\<close> has them. \<open>declared\<close> is the frame the other blocks see, and \<open>json_of\<close> the JSON value
  of a frame of the declared shape.
\<close>

datatype field = Array "string list" | Other

datatype received = NotJson | JsonNull | Json message "field option" "field option"

text \<open>\<^verbatim>\<open>x || d\<close> on such a field.\<close>

definition field_or :: "field option \<Rightarrow> string list \<Rightarrow> field" where
  "field_or v d = (case v of None \<Rightarrow> Array d | Some x \<Rightarrow> x)"

definition array_of :: "field option \<Rightarrow> string list option" where
  "array_of v = (case v of Some (Array xs) \<Rightarrow> Some xs | _ \<Rightarrow> None)"

definition declared :: "message \<Rightarrow> field option \<Rightarrow> field option \<Rightarrow> message" where
  "declared message lv cp = message\<lparr> m_levels := array_of lv, m_capabilities := array_of cp \<rparr>"


text \<open>
  The registries above hold entries of the declared shape. An entry whose \<^verbatim>\<open>capabilities\<close> or
  \<^verbatim>\<open>levels\<close> is not an array is a \<open>stored\<close> value: the object
  \<^verbatim>\<open>{ capabilities, route, url, protocol, platform, projectId }\<close> of the \<^verbatim>\<open>hello\<close> block or
  the object \<^verbatim>\<open>{ levels, capabilities, llm_filter }\<close> of the \<^verbatim>\<open>subscribe\<close> block. One call of
  the handler writes under its own socket only, so its \<open>outcome\<close> is the broker's state
  with the entries of the declared shape, the entry it left under its socket when that is
  not of the declared shape, and what it did to the outside. A block ends by returning or
  by throwing, with what it had done until then.
\<close>

datatype stored =
    Meta field "string option" "string option" int "string option" "string option"
  | Subscription field field string

record outcome =
  state_after :: broker
  undeclared :: "stored option"
  written :: "action list"

datatype completion = Returns outcome | Throws outcome


definition returned :: "broker \<times> action list \<Rightarrow> completion" where
  "returned r = Returns \<lparr> state_after = fst r, undeclared = None, written = snd r \<rparr>"

text \<open>
  The \<^verbatim>\<open>hello\<close> block: \<^verbatim>\<open>bridgeCapabilities.set\<close> replaces the entry of the socket, then
  \<^verbatim>\<open>capabilities.join\<close> runs. With an array the block is \<open>handle_hello\<close>.
\<close>

definition hello_block ::
  "sock \<Rightarrow> message \<Rightarrow> field option \<Rightarrow> field option \<Rightarrow> broker \<Rightarrow> completion" where
  "hello_block ws message lv cp s =
     (case field_or cp [] of
        Array xs \<Rightarrow> returned (handle_hello ws (declared message lv cp) s)
      | Other \<Rightarrow>
          Throws \<lparr> state_after = s\<lparr> bridgeCapabilities := (bridgeCapabilities s)(ws := None) \<rparr>,
                   undeclared = Some (Meta Other (m_route message) (m_url message)
                                        (num_or (m_protocol message) 1) (m_platform message)
                                        (m_projectId message)),
                   written = [] \<rparr>)"

text \<open>
  The \<^verbatim>\<open>subscribe\<close> block: \<^verbatim>\<open>consumerSubscriptions.set\<close>, then \<^verbatim>\<open>levels.join\<close> and
  \<^verbatim>\<open>capabilities.join\<close>. With two arrays the block is \<open>handle_subscribe\<close>.
\<close>

definition subscribe_block ::
  "sock \<Rightarrow> message \<Rightarrow> field option \<Rightarrow> field option \<Rightarrow> broker \<Rightarrow> completion" where
  "subscribe_block ws message lv cp s =
     (let levels' = field_or lv [''errors''];
          capabilities' = field_or cp [];
          llm_filter_raw = toLowerCase (str_or (m_llm_filter message) ''off'');
          llm_filter' = (if llm_filter_raw \<in> set FILTER_LEVELS then llm_filter_raw else ''off'')
      in if levels' = Other \<or> capabilities' = Other
         then Throws \<lparr> state_after =
                          s\<lparr> consumerSubscriptions := (consumerSubscriptions s)(ws := None) \<rparr>,
                        undeclared = Some (Subscription levels' capabilities' llm_filter'),
                        written = [] \<rparr>
         else returned (handle_subscribe ws (declared message lv cp) s))"

text \<open>
  The \<^verbatim>\<open>try\<close> block of \<^verbatim>\<open>ws.on('message')\<close> and, in \<open>on_data\<close>, the handler with its \<^verbatim>\<open>catch\<close>
  block: \<^verbatim>\<open>console.error\<close>, then \<^verbatim>\<open>ws.close(1011, 'Internal error')\<close>. The state before the
  call holds entries of the declared shape only, as every state does that the frames of
  the protocol lead to; after a throw the socket is closing, and the entry stays until the
  \<^verbatim>\<open>close\<close> event deletes it.
\<close>

definition try_block :: "sock \<Rightarrow> received \<Rightarrow> int \<Rightarrow> broker \<Rightarrow> completion" where
  "try_block ws d now s =
     (case d of
        NotJson \<Rightarrow> Throws \<lparr> state_after = s, undeclared = None, written = [] \<rparr>
      | JsonNull \<Rightarrow> Throws \<lparr> state_after = s, undeclared = None, written = [] \<rparr>
      | Json message lv cp \<Rightarrow>
          if isAuthenticated (conns s ws) \<and> m_type message \<noteq> Some ''ping''
             \<and> role (conns s ws) = Some ''bridge'' \<and> m_type message = Some ''hello''
          then hello_block ws message lv cp s
          else if isAuthenticated (conns s ws) \<and> m_type message \<noteq> Some ''ping''
             \<and> role (conns s ws) = Some ''consumer'' \<and> m_type message = Some ''subscribe''
          then subscribe_block ws message lv cp s
          else returned (on_message ws (Parsed (declared message lv cp)) now s))"

definition on_data :: "sock \<Rightarrow> received \<Rightarrow> int \<Rightarrow> broker \<Rightarrow> outcome" where
  "on_data ws d now s =
     (case try_block ws d now s of
        Returns r \<Rightarrow> r
      | Throws r \<Rightarrow> r\<lparr> state_after := ws_close ws (state_after r),
                        written := written r @ [ConsoleError, Close ws 1011 ''Internal error''] \<rparr>)"

subsection \<open>The HTTP endpoints that write to sockets\<close>

text \<open>
  Of the HTTP endpoints, the event batch and the control result write to sockets and read
  the pending requests. The others (connect, hello, poll, heartbeat, disconnect) keep the
  table of sessions, their capabilities and their queues only; states with HTTP sessions
  are among the broker states, and every property below holds from any state.
\<close>

text \<open>
  \<^verbatim>\<open>POST /bridge/connect\<close> with the right secret: a new session object, open, with an empty
  control queue, is stored under its session id (which \<^verbatim>\<open>makeSessionId\<close> draws) and added
  to the bridges.
\<close>

definition http_connect :: "string \<Rightarrow> sock \<Rightarrow> int \<Rightarrow> broker \<Rightarrow> broker" where
  "http_connect sessionId session now s =
     s\<lparr> httpBridgeSessions := (httpBridgeSessions s)(sessionId := Some session),
        bridges := set_add session (bridges s),
        kind_http := (kind_http s)(session := True),
        queue := (queue s)(session := []),
        lastSeen := (lastSeen s)(session := now),
        readyState := (readyState s)(session := 1) \<rparr>"

text \<open>\<^verbatim>\<open>POST /bridge/events\<close>: defaults, then \<^verbatim>\<open>deliverToConsumers\<close> for each event.\<close>

definition event_defaults :: "message \<Rightarrow> int \<Rightarrow> message" where
  "event_defaults ev now =
     (let m1 = (if m_timestamp ev = None \<or> m_timestamp ev = Some 0
                then ev\<lparr> m_timestamp := Some now \<rparr> else ev);
          m2 = (if \<not> truthy (m_level m1) then m1\<lparr> m_level := Some ''info'' \<rparr> else m1)
      in if \<not> truthy (m_type m2) then m2\<lparr> m_type := Some ''log'' \<rparr> else m2)"

fun deliver_events :: "message list \<Rightarrow> sock \<Rightarrow> int \<Rightarrow> broker \<Rightarrow> broker \<times> action list" where
  "deliver_events [] session now s = (s, [])"
| "deliver_events (ev # evs) session now s =
     (let (s1, a1) = deliverToConsumers (event_defaults ev now) session now s;
          (s2, a2) = deliver_events evs session now s1
      in (s2, a1 @ a2))"

definition http_events :: "string \<Rightarrow> message list \<Rightarrow> int \<Rightarrow> broker \<Rightarrow> broker \<times> action list" where
  "http_events sessionId events now s =
     (case httpBridgeSessions s sessionId of
        None \<Rightarrow> (s, [Respond 404])
      | Some session \<Rightarrow>
          let s1 = s\<lparr> lastSeen := (lastSeen s)(session := now) \<rparr>;
              (s2, acts) = deliver_events events session now s1
          in (s2, acts @ [Respond 204]))"

text \<open>\<^verbatim>\<open>POST /bridge/control/result\<close>.\<close>

definition http_control_result :: "string \<Rightarrow> message \<Rightarrow> int \<Rightarrow> broker \<Rightarrow> broker \<times> action list" where
  "http_control_result sessionId body now s =
     (case httpBridgeSessions s sessionId of
        None \<Rightarrow> (s, [Respond 404])
      | Some session \<Rightarrow>
          let s1 = s\<lparr> lastSeen := (lastSeen s)(session := now) \<rparr>
          in (case pendingControl s1 (m_id body) of
                None \<Rightarrow> (s1, [Respond 204])
              | Some pending \<Rightarrow>
                  if readyState s1 (replyTo pending) = 1
                  then (s1\<lparr> pendingControl := (pendingControl s1)(m_id body := None) \<rparr>,
                        [Send (replyTo pending)
                           (obj\<lparr> m_type := Some ''control_result'', m_id := m_id body,
                                 m_ok := m_ok body, m_result := m_result body,
                                 m_error := m_error body \<rparr>),
                         Respond 204])
                  else (s1, [Respond 204])))"

subsection \<open>Runs of the broker\<close>

text \<open>
  What can happen to the broker, each with the time at which it happens. \<open>WsClosing\<close> is
  the peer starting the closing handshake; \<open>WsClose\<close> is the \<^verbatim>\<open>close\<close> event, when the
  socket's \<^verbatim>\<open>readyState\<close> is already \<open>3\<close>.
\<close>

datatype input =
    Connection sock
  | WsMessage sock wsdata
  | WsClosing sock
  | WsClose sock
  | AuthTimeoutFired sock
  | HttpEvents string "message list"
  | HttpControlResult string message

definition step :: "broker \<Rightarrow> int \<times> input \<Rightarrow> broker \<times> action list" where
  "step s ti =
     (case ti of (now, inp) \<Rightarrow>
        (case inp of
           Connection ws \<Rightarrow> (on_connection ws s, [])
         | WsMessage ws data \<Rightarrow> on_message ws data now s
         | WsClosing ws \<Rightarrow> (ws_close ws s, [])
         | WsClose ws \<Rightarrow> (on_close ws (s\<lparr> readyState := (readyState s)(ws := 3) \<rparr>), [])
         | AuthTimeoutFired ws \<Rightarrow> auth_timeout ws s
         | HttpEvents sessionId events \<Rightarrow> http_events sessionId events now s
         | HttpControlResult sessionId body \<Rightarrow> http_control_result sessionId body now s))"

fun run :: "broker \<Rightarrow> (int \<times> input) list \<Rightarrow> broker \<times> action list" where
  "run s [] = (s, [])"
| "run s (ti # tis) =
     (let (s1, a1) = step s ti;
          (s2, a2) = run s1 tis
      in (s2, a1 @ a2))"


section \<open>Vocabulary of the properties\<close>

text \<open>The levels a consumer is subscribed to: \<^verbatim>\<open>subscription?.levels || ['errors']\<close>.\<close>

definition consumer_levels :: "broker \<Rightarrow> sock \<Rightarrow> string list" where
  "consumer_levels s c =
     (case consumerSubscriptions s c of None \<Rightarrow> [''errors''] | Some sub \<Rightarrow> levels sub)"

text \<open>
  The position of an event's mapped level in \<^verbatim>\<open>LEVEL_ORDER\<close>, and the highest position
  among a consumer's subscribed levels (compared in lower case, as the code does).
\<close>

definition event_index :: "message \<Rightarrow> int" where
  "event_index e = indexOf LEVEL_ORDER (getSubscriptionLevelForLogLevel (m_level e))"

definition highest_level :: "broker \<Rightarrow> sock \<Rightarrow> int" where
  "highest_level s c =
     Max ((\<lambda>l. indexOf LEVEL_ORDER (lower (Some l))) ` set (consumer_levels s c))"

text \<open>The frames a run wrote to one socket, in order.\<close>

definition delivered_to :: "sock \<Rightarrow> action list \<Rightarrow> message list" where
  "delivered_to c acts =
     concat (map (\<lambda>a. case a of Send r m \<Rightarrow> if r = c then [m] else [] | _ \<Rightarrow> []) acts)"

definition count_type :: "string \<Rightarrow> sock \<Rightarrow> action list \<Rightarrow> nat" where
  "count_type t c acts = length (filter (\<lambda>m. m_type m = Some t) (delivered_to c acts))"

text \<open>Frames as clients write them.\<close>

definition auth_frame :: "string \<Rightarrow> string option \<Rightarrow> wsdata" where
  "auth_frame sec r = Parsed (obj\<lparr> m_type := Some ''auth'', m_secret := Some sec, m_role := r \<rparr>)"

definition subscribe_frame :: "string list option \<Rightarrow> wsdata" where
  "subscribe_frame ls = Parsed (obj\<lparr> m_type := Some ''subscribe'', m_levels := ls \<rparr>)"

definition event_frame :: "string \<Rightarrow> string \<Rightarrow> wsdata" where
  "event_frame t l = Parsed (obj\<lparr> m_type := Some t, m_level := Some l, m_message := Some ''m'' \<rparr>)"

definition hello_frame :: "string list \<Rightarrow> wsdata" where
  "hello_frame caps = Parsed (obj\<lparr> m_type := Some ''hello'', m_capabilities := Some caps \<rparr>)"

text \<open>
  The level scenario: bridge \<open>0\<close> authenticates and sends no \<^verbatim>\<open>hello\<close>; consumer \<open>1\<close> never
  subscribes, consumer \<open>2\<close> subscribes to \<^verbatim>\<open>[warn, info]\<close>, consumer \<open>3\<close> to \<^verbatim>\<open>[trace]\<close>; the
  bridge then emits four console events at the levels error, warn, info and debug.
\<close>

definition level_scenario :: "(int \<times> input) list" where
  "level_scenario =
     [(1, Connection 0), (2, WsMessage 0 (auth_frame ''s'' (Some ''bridge''))),
      (3, Connection 1), (4, WsMessage 1 (auth_frame ''s'' (Some ''consumer''))),
      (5, Connection 2), (6, WsMessage 2 (auth_frame ''s'' (Some ''consumer''))),
      (7, WsMessage 2 (subscribe_frame (Some [''warn'', ''info'']))),
      (8, Connection 3), (9, WsMessage 3 (auth_frame ''s'' (Some ''consumer''))),
      (10, WsMessage 3 (subscribe_frame (Some [''trace'']))),
      (11, WsMessage 0 (event_frame ''console'' ''error'')),
      (12, WsMessage 0 (event_frame ''console'' ''warn'')),
      (13, WsMessage 0 (event_frame ''console'' ''info'')),
      (14, WsMessage 0 (event_frame ''console'' ''debug''))]"

text \<open>
  A \<^verbatim>\<open>control_result\<close> frame for the request id \<open>i\<close> written to a socket; an input that can
  record a pending entry under \<open>i\<close> or be answered with a result for \<open>i\<close> (a control request
  carrying \<open>i\<close>, or carrying no id, for which the broker makes one up); an event batch that
  carries a frame typed \<^verbatim>\<open>control_result\<close> with id \<open>i\<close> as an ordinary event.
\<close>

definition is_result :: "string option \<Rightarrow> action \<Rightarrow> bool" where
  "is_result i a =
     (case a of Send r m \<Rightarrow> m_type m = Some ''control_result'' \<and> m_id m = i | _ \<Rightarrow> False)"

definition is_request :: "message \<Rightarrow> bool" where
  "is_request m = (m_type m = Some ''control_request'' \<or> m_type m = Some ''control'')"

definition registers :: "string option \<Rightarrow> input \<Rightarrow> bool" where
  "registers i inp =
     (case inp of
        WsMessage ws (Parsed m) \<Rightarrow>
          if is_request m then (if truthy (m_id m) then m_id m = i else True) else False
      | _ \<Rightarrow> False)"

definition posts_result_event :: "string option \<Rightarrow> input \<Rightarrow> bool" where
  "posts_result_event i inp =
     (case inp of
        HttpEvents sessionId events \<Rightarrow>
          list_ex (\<lambda>ev. m_type ev = Some ''control_result'' \<and> m_id ev = i) events
      | _ \<Rightarrow> False)"

definition no_result_events :: "string option \<Rightarrow> (int \<times> input) list \<Rightarrow> bool" where
  "no_result_events i tis = list_all (\<lambda>ti. \<not> posts_result_event i (snd ti)) tis"

definition requests_for :: "string option \<Rightarrow> (int \<times> input) list \<Rightarrow> nat" where
  "requests_for i tis = length (filter (\<lambda>ti. registers i (snd ti)) tis)"

definition pending_count :: "broker \<Rightarrow> string option \<Rightarrow> nat" where
  "pending_count s i = (if pendingControl s i = None then 0 else 1)"

definition foreign :: "string option \<Rightarrow> (int \<times> input) list \<Rightarrow> bool" where
  "foreign i tis = list_all (\<lambda>ti. \<not> registers i (snd ti) \<and> \<not> posts_result_event i (snd ti)) tis"

text \<open>
  The control scenario: bridge \<open>0\<close> advertises \<^verbatim>\<open>control\<close>, consumer \<open>1\<close> sends the request
  \<^verbatim>\<open>req-1\<close>, which the broker forwards and records as pending.
\<close>

definition control_request_frame :: "string \<Rightarrow> wsdata" where
  "control_request_frame i =
     Parsed (obj\<lparr> m_type := Some ''control_request'', m_id := Some i \<rparr>)"

definition control_result_frame :: "string \<Rightarrow> wsdata" where
  "control_result_frame i =
     Parsed (obj\<lparr> m_type := Some ''control_result'', m_id := Some i, m_ok := Some True,
                  m_result := Some ''pong'' \<rparr>)"

definition control_scenario :: "(int \<times> input) list" where
  "control_scenario =
     [(1, Connection 0), (2, WsMessage 0 (auth_frame ''s'' (Some ''bridge''))),
      (3, WsMessage 0 (hello_frame [''control''])),
      (4, Connection 1), (5, WsMessage 1 (auth_frame ''s'' (Some ''consumer''))),
      (6, WsMessage 1 (control_request_frame ''req-1''))]"

text \<open>
  The scenario of the posted results: with the request \<^verbatim>\<open>req-1\<close> of the control scenario
  pending, an HTTP bridge posts an event batch with two frames typed \<^verbatim>\<open>control_result\<close> that
  carry the id \<^verbatim>\<open>req-1\<close>, at the level error; then bridge \<open>0\<close> answers the request.
\<close>

definition result_event :: "string \<Rightarrow> message" where
  "result_event i = obj\<lparr> m_type := Some ''control_result'', m_id := Some i,
                           m_level := Some ''error'' \<rparr>"

definition posted_results_scenario :: "(int \<times> input) list" where
  "posted_results_scenario =
     [(8, HttpEvents ''h1'' [result_event ''req-1'', result_event ''req-1'']),
      (9, WsMessage 0 (control_result_frame ''req-1''))]"


text \<open>
  The frames that fail to process: text that is not JSON, the JSON text \<^verbatim>\<open>null\<close>, a \<^verbatim>\<open>hello\<close>
  of an authenticated bridge whose \<^verbatim>\<open>capabilities\<close> is not an array, and a \<^verbatim>\<open>subscribe\<close> of an
  authenticated consumer whose \<^verbatim>\<open>levels\<close> or \<^verbatim>\<open>capabilities\<close> is not an array.
\<close>

definition unprocessable :: "sock \<Rightarrow> received \<Rightarrow> broker \<Rightarrow> bool" where
  "unprocessable ws d s =
     (case d of
        NotJson \<Rightarrow> True
      | JsonNull \<Rightarrow> True
      | Json message lv cp \<Rightarrow>
          isAuthenticated (conns s ws)
          \<and> (role (conns s ws) = Some ''bridge'' \<and> m_type message = Some ''hello''
               \<and> cp = Some Other
             \<or> role (conns s ws) = Some ''consumer'' \<and> m_type message = Some ''subscribe''
               \<and> (lv = Some Other \<or> cp = Some Other)))"

text \<open>
  The screenshot scenario: bridge \<open>0\<close> advertises \<^verbatim>\<open>screenshot\<close>, consumer \<open>1\<close> subscribes to
  \<^verbatim>\<open>[info]\<close>. A screenshot frame with its \<^verbatim>\<open>mime\<close> and \<^verbatim>\<open>data\<close>, and one without \<^verbatim>\<open>mime\<close>.
\<close>

definition screenshot_scenario :: "(int \<times> input) list" where
  "screenshot_scenario =
     [(1, Connection 0), (2, WsMessage 0 (auth_frame ''s'' (Some ''bridge''))),
      (3, WsMessage 0 (hello_frame [''screenshot''])),
      (4, Connection 1), (5, WsMessage 1 (auth_frame ''s'' (Some ''consumer''))),
      (6, WsMessage 1 (subscribe_frame (Some [''info''])))]"

definition valid_screenshot :: message where
  "valid_screenshot = obj\<lparr> m_type := Some ''screenshot'', m_level := Some ''info'',
                          m_mime := Some ''image/png'', m_data := Some ''aGVsbG8='' \<rparr>"

definition screenshot_without_mime :: message where
  "screenshot_without_mime = obj\<lparr> m_type := Some ''screenshot'', m_level := Some ''info'',
                                 m_data := Some ''aGVsbG8='' \<rparr>"

text \<open>
  The scenario without \<^verbatim>\<open>hello\<close>: bridge \<open>0\<close> authenticates only, consumer \<open>1\<close> subscribes to
  \<^verbatim>\<open>[info]\<close> with no capability filter.
\<close>

definition no_hello_scenario :: "(int \<times> input) list" where
  "no_hello_scenario =
     [(1, Connection 0), (2, WsMessage 0 (auth_frame ''s'' (Some ''bridge''))),
      (3, Connection 1), (4, WsMessage 1 (auth_frame ''s'' (Some ''consumer''))),
      (5, WsMessage 1 (subscribe_frame (Some [''info''])))]"

text \<open>
  The scenario of the empty subscription: consumer \<open>1\<close> subscribes with \<^verbatim>\<open>levels: []\<close>.
\<close>

definition empty_levels_scenario :: "(int \<times> input) list" where
  "empty_levels_scenario =
     [(1, Connection 0), (2, WsMessage 0 (auth_frame ''s'' (Some ''bridge''))),
      (3, Connection 1), (4, WsMessage 1 (auth_frame ''s'' (Some ''consumer''))),
      (5, WsMessage 1 (subscribe_frame (Some [])))]"

text \<open>
  The level predicate as the module \<^verbatim>\<open>src/host-utils.ts\<close> has it, the one the unit tests
  import: \<^verbatim>\<open>subscribedLevels?.length ? subscribedLevels : ['errors']\<close>, and the mapping
  of the log level without a parameter default.
\<close>

definition host_utils_getSubscriptionLevelForLogLevel :: "string option \<Rightarrow> string" where
  "host_utils_getSubscriptionLevelForLogLevel logLevel =
     (let lvl = lower logLevel
      in if lvl = ''error'' then ''errors''
         else if lvl = ''warn'' then ''warn''
         else if lvl = ''debug'' then ''trace''
         else ''info'')"

definition host_utils_subscriptionIncludesLevel ::
  "string list option \<Rightarrow> string option \<Rightarrow> bool" where
  "host_utils_subscriptionIncludesLevel subscribedLevels eventLogLevel =
     (let lvls = (case subscribedLevels of
                    None \<Rightarrow> [''errors'']
                  | Some xs \<Rightarrow> if length xs \<noteq> 0 then xs else [''errors'']);
          eventLevel = host_utils_getSubscriptionLevelForLogLevel eventLogLevel;
          eventIndex = indexOf LEVEL_ORDER eventLevel
      in list_ex (\<lambda>level. indexOf LEVEL_ORDER (lower (Some level)) \<ge> eventIndex) lvls)"

text \<open>
  The handshake order in the specification's words: whenever the client writes a \<^verbatim>\<open>hello\<close>
  frame, an \<^verbatim>\<open>auth_success\<close> frame has arrived before. \<open>seen\<close> says whether one has arrived
  so far.
\<close>

definition is_auth_success :: "client_event \<Rightarrow> bool" where
  "is_auth_success e =
     (case e of SocketMessage (Parsed m) \<Rightarrow> m_type m = Some ''auth_success'' | _ \<Rightarrow> False)"

fun spec_hello_after_auth_success ::
  "(message \<Rightarrow> message option) \<Rightarrow> client \<Rightarrow> bool \<Rightarrow> client_event list \<Rightarrow> bool" where
  "spec_hello_after_auth_success vr c seen [] = True"
| "spec_hello_after_auth_success vr c seen (e # es) =
     (let (c1, out) = client_step vr c e;
          seen1 = (seen \<or> is_auth_success e)
      in (if list_ex (\<lambda>m. m_type m = Some ''hello'') out then seen1 else True)
         \<and> spec_hello_after_auth_success vr c1 seen1 es)"

text \<open>
  A client whose socket opened and then closed; and one failed reconnect attempt: the
  timer fires and \<^verbatim>\<open>connect()\<close> runs, the socket reports an error and closes, and the
  \<^verbatim>\<open>catch\<close> of the rejected promise doubles the delay. The order of the last two depends on
  the socket. The \<^verbatim>\<open>ws\<close> package, which the client uses on Node, emits \<^verbatim>\<open>error\<close> and \<^verbatim>\<open>close\<close>
  in one go, so that \<^verbatim>\<open>onclose\<close> runs before the \<^verbatim>\<open>catch\<close>: \<open>failed_attempt_node\<close>. Where the
  rejection is handled as soon as \<^verbatim>\<open>onerror\<close> returns, before the \<^verbatim>\<open>close\<close> event is
  delivered, the \<^verbatim>\<open>catch\<close> runs first: \<open>failed_attempt\<close>.
\<close>

definition lost_socket :: "client_event list" where
  "lost_socket = [CallConnect, SocketOpen, SocketClose]"

definition failed_attempt_node :: "client_event list" where
  "failed_attempt_node = [ReconnectTimer, SocketError, SocketClose, ConnectRejected]"

definition failed_attempt :: "client_event list" where
  "failed_attempt = [ReconnectTimer, SocketError, ConnectRejected, SocketClose]"

text \<open>
  The delay in the specification's words: the base multiplied by a jitter factor drawn
  from \<open>[1.0, 1.5]\<close>.
\<close>

definition spec_jittered_delay :: "int \<Rightarrow> real \<Rightarrow> real" where
  "spec_jittered_delay base jitter = real_of_int base * jitter"

section \<open>Properties of the bridge client\<close>

subsection \<open>The outbound buffer\<close>

lemma drain_eq: "drain xs sent = ([], sent @ xs)"
  by (induction xs arbitrary: sent) auto

lemma flushBuffer_open:
  "ws_state c = Some 1 \<Longrightarrow> flushBuffer c =
     (c\<lparr> buffer := [], dropped := 0 \<rparr>,
      buffer c @ (if dropped c > 0 then [drop_notice (dropped c)] else []))"
  by (simp add: flushBuffer_def drain_eq)

lemma enqueue_bufferLimit: "bufferLimit (enqueue c e) = bufferLimit c"
  by (simp add: enqueue_def Let_def)

lemma enqueue_bounded:
  "0 < bufferLimit c \<Longrightarrow> length (buffer c) \<le> bufferLimit c \<Longrightarrow>
   length (buffer (enqueue c e)) \<le> bufferLimit c"
  by (auto simp: enqueue_def Let_def)

lemma enqueue_full:
  "length (buffer c) \<ge> bufferLimit c \<Longrightarrow>
   buffer (enqueue c e) = tl (buffer c) @ [e] \<and> dropped (enqueue c e) = dropped c + 1"
  by (simp add: enqueue_def Let_def)

lemma enqueue_room:
  "length (buffer c) < bufferLimit c \<Longrightarrow>
   buffer (enqueue c e) = buffer c @ [e] \<and> dropped (enqueue c e) = dropped c"
  by (simp add: enqueue_def Let_def)

lemma onopen_open:
  "ws_state c = Some 1 \<Longrightarrow>
   onopen c =
     (c\<lparr> reconnectDelay := 1000, helloSent := True,
         heartbeatInterval := Some (heartbeatIntervalMs c),
         heartbeatTimeout := None, buffer := [], dropped := 0 \<rparr>,
      authMessage c # helloMessage c # buffer c @
        (if dropped c > 0 then [drop_notice (dropped c)] else []))"
  by (simp add: onopen_def Let_def startHeartbeat_def stopHeartbeat_def sendRaw_def sendHello_def
      flushBuffer_open authMessage_def helloMessage_def split: option.splits prod.splits)

lemma flushBuffer_fields:
  "flushBuffer c = (c', out) \<Longrightarrow>
   bufferLimit c' = bufferLimit c \<and> length (buffer c') \<le> length (buffer c)"
  by (auto simp: flushBuffer_def drain_eq Let_def split: if_splits)

lemma onopen_fields:
  "onopen c = (c', out) \<Longrightarrow>
   bufferLimit c' = bufferLimit c \<and> length (buffer c') \<le> length (buffer c)"
  by (auto simp: onopen_def Let_def startHeartbeat_def stopHeartbeat_def sendHello_def
      split: if_splits prod.splits dest!: flushBuffer_fields)

lemma client_step_bounded:
  assumes "client_step vr c e = (c', out)" "0 < bufferLimit c"
    "length (buffer c) \<le> bufferLimit c"
  shows "bufferLimit c' = bufferLimit c \<and> length (buffer c') \<le> bufferLimit c"
proof (cases e)
  case SocketOpen
  with assms show ?thesis
    by (auto simp: client_step_def dest!: onopen_fields)
next
  case (CallSend ev)
  with assms show ?thesis
    by (auto simp: client_step_def send_def enqueue_bufferLimit enqueue_bounded
        split: option.splits if_splits)
next
  case (SocketMessage raw)
  with assms show ?thesis
    by (auto simp: client_step_def handleIncoming_def resetHeartbeatTimeout_def
        setHeartbeatTimeout_def split: wsdata.splits if_splits option.splits)
qed (use assms in \<open>auto simp: client_step_def onerror_def onclose_def stopHeartbeat_def
      scheduleReconnect_def reconnect_timer_def connect_def connect_catch_def sendPing_def
      setHeartbeatTimeout_def heartbeat_expired_def disconnect_def Let_def
      split: option.splits if_splits\<close>)

lemma client_run_bounded:
  "client_run vr c es = (c', out) \<Longrightarrow> 0 < bufferLimit c \<Longrightarrow>
   length (buffer c) \<le> bufferLimit c \<Longrightarrow>
   bufferLimit c' = bufferLimit c \<and> length (buffer c') \<le> bufferLimit c"
proof (induction es arbitrary: c c' out)
  case Nil
  then show ?case by simp
next
  case (Cons e es)
  obtain c1 out1 where s: "client_step vr c e = (c1, out1)"
    by (cases "client_step vr c e")
  obtain c2 out2 where r: "client_run vr c1 es = (c2, out2)"
    by (cases "client_run vr c1 es")
  from Cons.prems(1) s r have c': "c' = c2" by simp
  from client_step_bounded[OF s Cons.prems(2,3)]
  have b1: "bufferLimit c1 = bufferLimit c" "length (buffer c1) \<le> bufferLimit c"
    by simp_all
  from Cons.IH[OF r] b1 Cons.prems(2)
  have "bufferLimit c2 = bufferLimit c1 \<and> length (buffer c2) \<le> bufferLimit c1"
    by simp
  with b1 c' show ?case by simp
qed

lemma buffer_scenario:
  "snd (client_run Some ((new_client sec caps plat proj)\<lparr> bufferLimit := 3 \<rparr>)
          [CallSend (console_event ''m0''), CallSend (console_event ''m1''),
           CallSend (console_event ''m2''), CallSend (console_event ''m3''),
           CallSend (console_event ''m4''), CallConnect, SocketOpen])
   = [authMessage (new_client sec caps plat proj), helloMessage (new_client sec caps plat proj),
      console_event ''m2'', console_event ''m3'', console_event ''m4'',
      obj\<lparr> m_type := Some ''info'', m_level := Some ''info'',
           m_message := Some ''bridge buffered drop count=2'' \<rparr>]"
  by (simp add: new_client_def client_step_def send_def enqueue_def Let_def connect_def
      onopen_open authMessage_def helloMessage_def drop_notice_def show_nat.simps digit_char_def)

text \<open>
  Claim C3. For a client whose \<open>bufferLimit\<close> is positive (the constant is 200) and whose
  buffer is within the limit (it starts empty):
  \<^item> along every run of socket events, timers and calls the buffer stays within the limit;
  \<^item> \<^verbatim>\<open>enqueue\<close> on a full buffer drops the oldest element and counts it in \<open>dropped\<close>,
    and otherwise appends;
  \<^item> when the socket opens, the client writes \<^verbatim>\<open>auth\<close>, \<^verbatim>\<open>hello\<close>, then the buffered events
    oldest first, then, if \<open>dropped > 0\<close>, one \<^verbatim>\<open>info\<close> event whose message is
    \<^verbatim>\<open>bridge buffered drop count=N\<close> with \<open>N = dropped\<close>; the buffer is then empty and
    \<open>dropped\<close> is zero;
  \<^item> with \<open>bufferLimit = 3\<close> and five events \<open>m0..m4\<close> sent while disconnected, connecting
    writes \<^verbatim>\<open>auth, hello, m2, m3, m4\<close> and the notice with count 2.
\<close>

theorem outbound_buffer:
  assumes "0 < bufferLimit c" and "length (buffer c) \<le> bufferLimit c"
  shows "(\<forall>es. length (buffer (fst (client_run vr c es))) \<le> bufferLimit c)
       \<and> (length (buffer c) = bufferLimit c \<longrightarrow>
            buffer (enqueue c ev) = tl (buffer c) @ [ev]
            \<and> dropped (enqueue c ev) = dropped c + 1)
       \<and> (length (buffer c) < bufferLimit c \<longrightarrow>
            buffer (enqueue c ev) = buffer c @ [ev] \<and> dropped (enqueue c ev) = dropped c)
       \<and> snd (client_step vr c SocketOpen) =
            authMessage c # helloMessage c # buffer c @
              (if 0 < dropped c then [drop_notice (dropped c)] else [])
       \<and> m_message (drop_notice (dropped c)) =
            Some (''bridge buffered drop count='' @ show_nat (dropped c))
       \<and> buffer (fst (client_step vr c SocketOpen)) = []
       \<and> dropped (fst (client_step vr c SocketOpen)) = 0
       \<and> snd (client_run Some ((new_client sec caps plat proj)\<lparr> bufferLimit := 3 \<rparr>)
             [CallSend (console_event ''m0''), CallSend (console_event ''m1''),
              CallSend (console_event ''m2''), CallSend (console_event ''m3''),
              CallSend (console_event ''m4''), CallConnect, SocketOpen])
          = [authMessage (new_client sec caps plat proj),
             helloMessage (new_client sec caps plat proj),
             console_event ''m2'', console_event ''m3'', console_event ''m4'',
             obj\<lparr> m_type := Some ''info'', m_level := Some ''info'',
                  m_message := Some ''bridge buffered drop count=2'' \<rparr>]"
proof -
  have inv: "\<forall>es. length (buffer (fst (client_run vr c es))) \<le> bufferLimit c"
  proof
    fix es
    obtain c' out where r: "client_run vr c es = (c', out)"
      by (cases "client_run vr c es")
    from client_run_bounded[OF r assms] show
      "length (buffer (fst (client_run vr c es))) \<le> bufferLimit c"
      by (simp add: r)
  qed
  have op: "client_step vr c SocketOpen = onopen (c\<lparr> ws_state := Some 1 \<rparr>)"
    by (simp add: client_step_def)
  have hm: "\<And>r. helloMessage (c\<lparr> ws_state := r \<rparr>) = helloMessage c"
    "\<And>r. authMessage (c\<lparr> ws_state := r \<rparr>) = authMessage c"
    by (simp_all add: helloMessage_def authMessage_def Let_def split: option.splits)
  have opn: "snd (client_step vr c SocketOpen) =
      authMessage c # helloMessage c # buffer c @
        (if 0 < dropped c then [drop_notice (dropped c)] else [])"
    "buffer (fst (client_step vr c SocketOpen)) = []"
    "dropped (fst (client_step vr c SocketOpen)) = 0"
    by (simp_all add: op onopen_open hm)
  have msg: "m_message (drop_notice (dropped c)) =
      Some (''bridge buffered drop count='' @ show_nat (dropped c))"
    by (simp add: drop_notice_def)
  from inv enqueue_full[of c ev] enqueue_room[of c ev] opn msg
    buffer_scenario[of sec caps plat proj]
  show ?thesis by simp
qed

text \<open>The theorem at a client whose buffer of three is full: a fourth event evicts the first.\<close>

theorem outbound_buffer_witness:
  "0 < bufferLimit ((new_client ''s'' [] ''node'' None)
         \<lparr> bufferLimit := 3,
           buffer := [console_event ''m0'', console_event ''m1'', console_event ''m2''] \<rparr>)
   \<and> buffer (enqueue ((new_client ''s'' [] ''node'' None)
         \<lparr> bufferLimit := 3,
           buffer := [console_event ''m0'', console_event ''m1'', console_event ''m2''] \<rparr>)
         (console_event ''m3''))
     = [console_event ''m1'', console_event ''m2'', console_event ''m3'']
   \<and> dropped (enqueue ((new_client ''s'' [] ''node'' None)
         \<lparr> bufferLimit := 3,
           buffer := [console_event ''m0'', console_event ''m1'', console_event ''m2''] \<rparr>)
         (console_event ''m3'')) = 1"
  using outbound_buffer[of "(new_client ''s'' [] ''node'' None)
         \<lparr> bufferLimit := 3,
           buffer := [console_event ''m0'', console_event ''m1'', console_event ''m2''] \<rparr>"
         Some "console_event ''m3''"]
  by (simp add: new_client_def)

section \<open>Properties of the broker\<close>

subsection \<open>Routing\<close>

lemma filterEvent_state_eq:
  "filterEventForConsumer m sub now s = (ok, s') \<Longrightarrow>
   s' = s\<lparr> windowStart := windowStart s', windowCount := windowCount s' \<rparr>"
  by (auto simp: filterEventForConsumer_def Let_def split: if_splits)

lemma filterEvent_state:
  "filterEventForConsumer m sub now s = (ok, s') \<Longrightarrow>
   \<exists>a b. s' = s\<lparr> windowStart := a, windowCount := b \<rparr>"
  by (blast dest: filterEvent_state_eq)

lemma shouldRoute_state:
  "shouldRouteToConsumer c m b now s = (ok, s') \<Longrightarrow>
   \<exists>a b. s' = s\<lparr> windowStart := a, windowCount := b \<rparr>"
proof (cases "consumerSubscriptions s c")
  case None
  assume "shouldRouteToConsumer c m b now s = (ok, s')"
  with None have "s' = s"
    by (auto simp: shouldRouteToConsumer_def Let_def split: if_splits)
  then have "s' = s\<lparr> windowStart := windowStart s, windowCount := windowCount s \<rparr>" by simp
  then show ?thesis by blast
next
  case (Some sub)
  assume a: "shouldRouteToConsumer c m b now s = (ok, s')"
  obtain ok1 s1 where f: "filterEventForConsumer m sub now s = (ok1, s1)"
    by (cases "filterEventForConsumer m sub now s")
  from a Some f have "s' = s1"
    by (auto simp: shouldRouteToConsumer_def Let_def split: if_splits)
  with filterEvent_state[OF f] show ?thesis by simp
qed

lemma routed_state:
  "routed cs m b now s = (rs, s') \<Longrightarrow>
   \<exists>a b. s' = s\<lparr> windowStart := a, windowCount := b \<rparr>"
proof (induction cs arbitrary: s rs s')
  case Nil
  then have "s' = s\<lparr> windowStart := windowStart s, windowCount := windowCount s \<rparr>" by simp
  then show ?case by blast
next
  case (Cons c cs)
  show ?case
  proof (cases "readyState s c = 1")
    case True
    obtain ok s1 where r1: "shouldRouteToConsumer c m b now s = (ok, s1)"
      by (cases "shouldRouteToConsumer c m b now s")
    obtain rs2 s2 where r2: "routed cs m b now s1 = (rs2, s2)"
      by (cases "routed cs m b now s1")
    from Cons.prems True r1 r2 have e: "s' = s2" by (simp split: if_splits)
    from shouldRoute_state[OF r1] obtain a1 b1 where
      a: "s1 = s\<lparr> windowStart := a1, windowCount := b1 \<rparr>" by blast
    from Cons.IH[OF r2] obtain a2 b2 where
      b: "s2 = s1\<lparr> windowStart := a2, windowCount := b2 \<rparr>" by blast
    have "s2 = s\<lparr> windowStart := a2, windowCount := b2 \<rparr>"
      by (simp add: a b)
    with e show ?thesis by blast
  next
    case False
    with Cons show ?thesis by simp
  qed
qed

lemma shouldRoute_level:
  assumes "shouldRouteToConsumer c m b now s = (True, s')"
  shows "subscriptionIncludesLevel (Some (consumer_levels s c)) (Some (str_or (m_level m) ''info''))"
  using assms
  by (auto simp: shouldRouteToConsumer_def consumer_levels_def Let_def
      split: if_splits option.splits prod.splits)

lemma shouldRoute_caps:
  assumes "shouldRouteToConsumer c m b now s = (True, s')"
    and "toLowerCase (str_or (m_type m) []) \<in> set gated_types"
  shows "bridgeHasCapability (map_option b_capabilities (bridgeCapabilities s b))
           (Some (toLowerCase (str_or (m_type m) [])))"
proof (cases "consumerSubscriptions s c")
  case None
  with assms show ?thesis
    by (auto simp: shouldRouteToConsumer_def Let_def split: if_splits)
next
  case (Some sub)
  obtain ok1 s1 where f: "filterEventForConsumer m sub now s = (ok1, s1)"
    by (cases "filterEventForConsumer m sub now s")
  from filterEvent_state[OF f] have "bridgeCapabilities s1 = bridgeCapabilities s" by auto
  with assms Some f show ?thesis
    by (auto simp: shouldRouteToConsumer_def Let_def split: if_splits)
qed

lemma routed_sound:
  "routed cs m b now s = (rs, s') \<Longrightarrow> c \<in> set rs \<Longrightarrow>
   c \<in> set cs \<and> readyState s c = 1
   \<and> subscriptionIncludesLevel (Some (consumer_levels s c)) (Some (str_or (m_level m) ''info''))
   \<and> (toLowerCase (str_or (m_type m) []) \<in> set gated_types \<longrightarrow>
        bridgeHasCapability (map_option b_capabilities (bridgeCapabilities s b))
          (Some (toLowerCase (str_or (m_type m) []))))"
proof (induction cs arbitrary: s rs s')
  case Nil
  then show ?case by simp
next
  case (Cons x cs)
  show ?case
  proof (cases "readyState s x = 1")
    case False
    with Cons.prems have "routed cs m b now s = (rs, s')" by simp
    from Cons.IH[OF this Cons.prems(2)] show ?thesis by simp
  next
    case True
    obtain ok s1 where r1: "shouldRouteToConsumer x m b now s = (ok, s1)"
      by (cases "shouldRouteToConsumer x m b now s")
    obtain rs2 s2 where r2: "routed cs m b now s1 = (rs2, s2)"
      by (cases "routed cs m b now s1")
    from Cons.prems(1) True r1 r2 have rs: "rs = (if ok then x # rs2 else rs2)" by simp
    from shouldRoute_state[OF r1] obtain a1 b1 where
      a: "s1 = s\<lparr> windowStart := a1, windowCount := b1 \<rparr>" by blast
    have same: "consumer_levels s1 c = consumer_levels s c" "readyState s1 = readyState s"
      "bridgeCapabilities s1 = bridgeCapabilities s"
      by (simp_all add: a consumer_levels_def)
    show ?thesis
    proof (cases "c \<in> set rs2")
      case True
      from Cons.IH[OF r2 True] same show ?thesis by simp
    next
      case False
      with Cons.prems(2) rs have ok: "ok" and cx: "c = x" by (auto split: if_splits)
      from r1 ok have r1': "shouldRouteToConsumer x m b now s = (True, s1)" by simp
      from shouldRoute_level[OF r1'] shouldRoute_caps[OF r1'] True cx show ?thesis by simp
    qed
  qed
qed

lemma level_default: "getSubscriptionLevelForLogLevel (Some (str_or lv ''info'')) = getSubscriptionLevelForLogLevel lv"
  by (cases lv) (auto simp: getSubscriptionLevelForLogLevel_def str_or_def lower_def toLowerCase_def lower_char_def)

lemma includes_level_max:
  assumes "subscriptionIncludesLevel (Some ls) (Some l)"
  shows "indexOf LEVEL_ORDER (getSubscriptionLevelForLogLevel (Some l))
         \<le> Max ((\<lambda>x. indexOf LEVEL_ORDER (lower (Some x))) ` set ls)"
proof -
  from assms obtain sub where sub: "sub \<in> set ls"
    and ge: "indexOf LEVEL_ORDER (getSubscriptionLevelForLogLevel (Some l))
             \<le> indexOf LEVEL_ORDER (lower (Some sub))"
    by (auto simp: subscriptionIncludesLevel_def Let_def arr_or_def list_ex_iff)
  have "indexOf LEVEL_ORDER (lower (Some sub))
        \<le> Max ((\<lambda>x. indexOf LEVEL_ORDER (lower (Some x))) ` set ls)"
    using sub by (intro Max_ge) auto
  with ge show ?thesis by linarith
qed

lemma routed_gate:
  assumes "routed cs m b now s = (rs, s')" "c \<in> set rs"
  shows "event_index m \<le> highest_level s c"
proof -
  from routed_sound[OF assms] have
    "subscriptionIncludesLevel (Some (consumer_levels s c)) (Some (str_or (m_level m) ''info''))"
    by simp
  from includes_level_max[OF this] show ?thesis
    by (simp add: event_index_def highest_level_def level_default)
qed

subsection \<open>The level gate\<close>

lemma broadcast_gate:
  assumes "Send c m' \<in> set (snd (broadcast b e now s))"
  shows "event_index e \<le> highest_level s c"
proof -
  obtain rs s1 where r: "routed (consumers s) e b now s = (rs, s1)"
    by (cases "routed (consumers s) e b now s")
  from assms r have "c \<in> set rs" by (auto simp: broadcast_def)
  from routed_gate[OF r this] show ?thesis .
qed

lemma screenshot_gate:
  assumes "Send c m' \<in> set (snd (handle_screenshot b e now s))"
    and "m_type m' \<noteq> Some ''rate_limit_notice''"
  shows "event_index e \<le> highest_level s c"
proof -
  obtain rs s1 where r: "routed (consumers s) e b now s = (rs, s1)"
    by (cases "routed (consumers s) e b now s")
  from assms r have "c \<in> set rs"
    by (auto simp: handle_screenshot_def Let_def rate_limit_notice_def
        split: if_splits option.splits)
  from routed_gate[OF r this] show ?thesis .
qed

lemma highest_level_window [simp]:
  "highest_level (s\<lparr> windowStart := a, windowCount := b \<rparr>) c = highest_level s c"
  by (simp add: highest_level_def consumer_levels_def)

lemma deliver_events_gate:
  "Send c m' \<in> set (snd (deliver_events evs session now s)) \<Longrightarrow>
   event_index m' \<le> highest_level s c"
proof (induction evs arbitrary: s)
  case Nil
  then show ?case by simp
next
  case (Cons ev evs)
  obtain rs s1 where r: "routed (consumers s) (event_defaults ev now) session now s = (rs, s1)"
    by (cases "routed (consumers s) (event_defaults ev now) session now s")
  obtain s2 a2 where d: "deliver_events evs session now s1 = (s2, a2)"
    by (cases "deliver_events evs session now s1")
  from routed_state[OF r] obtain a b where s1: "s1 = s\<lparr> windowStart := a, windowCount := b \<rparr>"
    by blast
  from Cons.prems r d have
    "(m' = event_defaults ev now \<and> c \<in> set rs) \<or> Send c m' \<in> set a2"
    by (auto simp: deliverToConsumers_def)
  then show ?case
  proof
    assume "m' = event_defaults ev now \<and> c \<in> set rs"
    with routed_gate[OF r] show ?thesis by simp
  next
    assume "Send c m' \<in> set a2"
    with d have "Send c m' \<in> set (snd (deliver_events evs session now s1))" by simp
    from Cons.IH[OF this] s1 show ?thesis by simp
  qed
qed

lemma http_events_gate:
  assumes "Send c m' \<in> set (snd (http_events sessionId evs now s))"
  shows "event_index m' \<le> highest_level s c"
proof (cases "httpBridgeSessions s sessionId")
  case None
  with assms show ?thesis by (simp add: http_events_def)
next
  case (Some session)
  let ?s1 = "s\<lparr> lastSeen := (lastSeen s)(session := now) \<rparr>"
  obtain s2 acts where d: "deliver_events evs session now ?s1 = (s2, acts)"
    by (cases "deliver_events evs session now ?s1")
  from assms Some d have "Send c m' \<in> set (snd (deliver_events evs session now ?s1))"
    by (auto simp: http_events_def Let_def)
  from deliver_events_gate[OF this] show ?thesis
    by (simp add: highest_level_def consumer_levels_def)
qed

lemma level_scenario_counts:
  "map (\<lambda>c. count_type ''console'' c (snd (run (new_broker ''s'' 0) level_scenario))) [1, 2, 3]
   = [1, 3, 4]"
  by code_simp

text \<open>
  Claim C1. Whenever the broker, handling an event frame \<open>e\<close> from an authenticated bridge
  (any frame that is not \<^verbatim>\<open>ping\<close>, \<^verbatim>\<open>hello\<close>, \<^verbatim>\<open>control_result\<close> or \<^verbatim>\<open>control_request\<close>), writes
  the event to a socket \<open>c\<close> (the rate-limit notices of the screenshot block, which go back
  to the bridge, are not deliveries), the position of the event's mapped level in
  \<^verbatim>\<open>LEVEL_ORDER\<close> is at most the highest position among the levels \<open>c\<close> subscribed to; the
  same holds for every frame fanned out from an HTTP event batch; a consumer that never
  subscribed has the levels \<^verbatim>\<open>[errors]\<close>. In the scenario with the four events error, warn,
  info and debug, the consumer without subscription receives 1 event, the one subscribed
  to \<^verbatim>\<open>[warn, info]\<close> receives 3 and the one subscribed to \<^verbatim>\<open>[trace]\<close> receives 4.
\<close>

theorem level_gate:
  assumes "isAuthenticated (conns s b)" and "role (conns s b) = Some ''bridge''"
    and "m_type e \<noteq> Some ''ping''" and "m_type e \<noteq> Some ''hello''"
    and "m_type e \<noteq> Some ''control_result''" and "m_type e \<noteq> Some ''control_request''"
    and "Send c m' \<in> set (snd (step s (now, WsMessage b (Parsed e))))"
    and "m_type m' \<noteq> Some ''rate_limit_notice''"
  shows "event_index e \<le> highest_level s c
       \<and> (\<forall>sessionId evs r m. Send r m \<in> set (snd (step s (now, HttpEvents sessionId evs)))
             \<longrightarrow> event_index m \<le> highest_level s r)
       \<and> (consumerSubscriptions s c = None \<longrightarrow> consumer_levels s c = [''errors''])
       \<and> map (\<lambda>c. count_type ''console'' c (snd (run (new_broker ''s'' 0) level_scenario)))
            [1, 2, 3] = [1, 3, 4]"
proof -
  have ws: "event_index e \<le> highest_level s c"
  proof (cases "m_type e = Some ''screenshot''")
    case True
    with assms have "Send c m' \<in> set (snd (handle_screenshot b e now s))"
      by (simp add: step_def on_message_def)
    from screenshot_gate[OF this assms(8)] show ?thesis .
  next
    case False
    with assms have "Send c m' \<in> set (snd (broadcast b e now s))"
      by (simp add: step_def on_message_def)
    from broadcast_gate[OF this] show ?thesis .
  qed
  have http: "\<forall>sessionId evs r m. Send r m \<in> set (snd (step s (now, HttpEvents sessionId evs)))
             \<longrightarrow> event_index m \<le> highest_level s r"
    by (auto simp: step_def dest: http_events_gate)
  from ws http level_scenario_counts show ?thesis
    by (simp add: consumer_levels_def)
qed

text \<open>The theorem at the warn event of the scenario and the consumer subscribed to \<^verbatim>\<open>[warn, info]\<close>.\<close>

theorem level_gate_witness:
  "isAuthenticated (conns (fst (run (new_broker ''s'' 0) (take 10 level_scenario))) 0)
   \<and> role (conns (fst (run (new_broker ''s'' 0) (take 10 level_scenario))) 0) = Some ''bridge''
   \<and> Send 2 (obj\<lparr> m_type := Some ''console'', m_level := Some ''warn'', m_message := Some ''m'' \<rparr>)
        \<in> set (snd (step (fst (run (new_broker ''s'' 0) (take 10 level_scenario)))
                    (12, WsMessage 0 (event_frame ''console'' ''warn''))))
   \<and> event_index (obj\<lparr> m_type := Some ''console'', m_level := Some ''warn'',
                        m_message := Some ''m'' \<rparr>)
       \<le> highest_level (fst (run (new_broker ''s'' 0) (take 10 level_scenario))) 2"
proof -
  let ?s = "fst (run (new_broker ''s'' 0) (take 10 level_scenario))"
  let ?e = "obj\<lparr> m_type := Some ''console'', m_level := Some ''warn'', m_message := Some ''m'' \<rparr>"
  have h1: "isAuthenticated (conns ?s 0)" by code_simp
  have h2: "role (conns ?s 0) = Some ''bridge''" by code_simp
  have t: "m_type ?e \<noteq> Some ''ping''" "m_type ?e \<noteq> Some ''hello''"
    "m_type ?e \<noteq> Some ''control_result''" "m_type ?e \<noteq> Some ''control_request''"
    "m_type ?e \<noteq> Some ''rate_limit_notice''"
    by simp_all
  have h7: "Send 2 ?e \<in> set (snd (step ?s (12, WsMessage 0 (Parsed ?e))))" by code_simp
  from level_gate[OF h1 h2 t(1-4) h7 t(5)]
  have "event_index ?e \<le> highest_level ?s 2" by simp
  with h1 h2 h7 show ?thesis by (simp add: event_frame_def)
qed

subsection \<open>Control correlation\<close>

lemma sends_no_result:
  "m_type m \<noteq> Some ''control_result'' \<or> m_id m \<noteq> i \<Longrightarrow>
   filter (is_result i) (map (\<lambda>c. Send c m) rs) = []"
  by (induction rs) (auto simp: is_result_def)

lemma routed_pending:
  assumes "routed cs m b now s = (rs, s')"
  shows "pendingControl s' = pendingControl s"
  using routed_state[OF assms] by auto

lemma unauthenticated_quiet:
  assumes "handle_unauthenticated ws m now s = (s', acts)"
  shows "pendingControl s' = pendingControl s \<and> filter (is_result i) acts = []"
  using assms
  by (auto simp: handle_unauthenticated_def Let_def ws_close_def is_result_def split: if_splits)

lemma hello_quiet:
  assumes "handle_hello ws m s = (s', acts)"
  shows "pendingControl s' = pendingControl s \<and> filter (is_result i) acts = []"
  using assms by (auto simp: handle_hello_def Let_def is_result_def)

lemma subscribe_quiet:
  assumes "handle_subscribe ws m s = (s', acts)"
  shows "pendingControl s' = pendingControl s \<and> filter (is_result i) acts = []"
  using assms by (auto simp: handle_subscribe_def Let_def is_result_def)

lemma broadcast_quiet:
  assumes "broadcast ws m now s = (s', acts)" "m_type m \<noteq> Some ''control_result''"
  shows "pendingControl s' = pendingControl s \<and> filter (is_result i) acts = []"
proof -
  obtain rs s1 where r: "routed (consumers s) m ws now s = (rs, s1)"
    by (cases "routed (consumers s) m ws now s")
  from assms r routed_pending[OF r] show ?thesis
    by (auto simp: broadcast_def sends_no_result)
qed

lemma fill_screenshot_type [simp]: "m_type (fill_screenshot m now) = m_type m"
  by (simp add: fill_screenshot_def Let_def)

lemma screenshot_quiet:
  assumes "handle_screenshot ws m now s = (s', acts)" "m_type m \<noteq> Some ''control_result''"
  shows "pendingControl s' = pendingControl s \<and> filter (is_result i) acts = []"
proof -
  obtain rs s1 where r: "routed (consumers s) m ws now s = (rs, s1)"
    by (cases "routed (consumers s) m ws now s")
  from assms r routed_pending[OF r] show ?thesis
    by (auto simp: handle_screenshot_def Let_def sends_no_result is_result_def
        rate_limit_notice_def split: if_splits option.splits)
qed

lemma bridge_request_quiet:
  assumes "handle_bridge_control_request ws m now s = (s', acts)" "m_id m \<noteq> i"
  shows "pendingControl s' i = pendingControl s i \<and> filter (is_result i) acts = []"
proof -
  obtain rs s1 where r: "routed (consumers s) (m\<lparr> m_level := Some ''info'' \<rparr>) ws now s = (rs, s1)"
    by (cases "routed (consumers s) (m\<lparr> m_level := Some ''info'' \<rparr>) ws now s")
  from assms r routed_pending[OF r] show ?thesis
    by (auto simp: handle_bridge_control_request_def Let_def sends_no_result is_result_def
        no_consumers_result_def split: if_splits)
qed

lemma forward_control_quiet:
  "forward_control ts p s = (s', acts) \<Longrightarrow> m_type p \<noteq> Some ''control_result'' \<Longrightarrow>
   pendingControl s' = pendingControl s \<and> filter (is_result i) acts = []"
proof (induction ts arbitrary: s s' acts)
  case Nil
  then show ?case by simp
next
  case (Cons t ts)
  show ?case
  proof (cases "kind_http s t")
    case True
    with Cons.prems have
      "forward_control ts p (s\<lparr> queue := (queue s)(t := queue s t @ [p]) \<rparr>) = (s', acts)"
      by simp
    from Cons.IH[OF this Cons.prems(2)] show ?thesis by simp
  next
    case False
    obtain s1 a1 where f: "forward_control ts p s = (s1, a1)"
      by (cases "forward_control ts p s")
    from Cons.prems False f have "s' = s1" "acts = Send t p # a1" by simp_all
    with Cons.IH[OF f Cons.prems(2)] Cons.prems(2) show ?thesis
      by (simp add: is_result_def)
  qed
qed

lemma consumer_control_quiet:
  assumes "handle_consumer_control ws m now s = (s', acts)" "truthy (m_id m)" "m_id m \<noteq> i"
  shows "pendingControl s' i = pendingControl s i \<and> filter (is_result i) acts = []"
proof -
  from assms(2) obtain j where j: "m_id m = Some j" "j \<noteq> []"
    by (auto simp: truthy_def split: option.splits)
  then have rid: "str_or (m_id m) (clientId_text (conns s ws) @ ''-'' @ show_int now) = j"
    by (simp add: str_or_def)
  let ?payload = "m\<lparr> m_type := Some ''control_request'', m_id := Some j \<rparr>"
  let ?targets = "filter (\<lambda>bridgeWs. readyState s bridgeWs = 1
                              \<and> bridgeHasCapability
                                  (map_option b_capabilities (bridgeCapabilities s bridgeWs))
                                  (Some ''control'')) (bridges s)"
  let ?s1 = "s\<lparr> pendingControl := (pendingControl s)(Some j :=
                          Some \<lparr> replyTo = ws, origin = ''consumer'' \<rparr>) \<rparr>"
  obtain s2 a2 where f: "forward_control ?targets ?payload ?s1 = (s2, a2)"
    by (cases "forward_control ?targets ?payload ?s1")
  have q: "pendingControl s2 = pendingControl ?s1 \<and> filter (is_result i) a2 = []"
    by (rule forward_control_quiet[OF f]) simp
  from assms(1,3) j rid f q show ?thesis
    by (auto simp: handle_consumer_control_def Let_def is_result_def split: if_splits)
qed

lemma control_result_cases:
  assumes "handle_control_result m s = (s', acts)"
  shows "(m_id m \<noteq> i \<longrightarrow> pendingControl s' i = pendingControl s i \<and> filter (is_result i) acts = [])
       \<and> (m_id m = i \<longrightarrow>
            (s' = s \<and> acts = [])
          \<or> (\<exists>e. pendingControl s i = Some e \<and> readyState s (replyTo e) = 1
                 \<and> pendingControl s' i = None \<and> acts = [Send (replyTo e) m]))"
  using assms
  by (auto simp: handle_control_result_def is_result_def split: option.splits if_splits)

lemma http_control_result_cases:
  assumes "http_control_result sid body now s = (s', acts)"
  shows "(m_id body \<noteq> i \<longrightarrow> pendingControl s' i = pendingControl s i \<and> filter (is_result i) acts = [])
       \<and> (m_id body = i \<longrightarrow>
            (pendingControl s' i = pendingControl s i \<and> filter (is_result i) acts = [])
          \<or> (\<exists>e m. pendingControl s i = Some e \<and> readyState s (replyTo e) = 1
                 \<and> pendingControl s' i = None
                 \<and> filter (is_result i) acts = [Send (replyTo e) m]))"
  using assms
  by (auto simp: http_control_result_def Let_def is_result_def split: option.splits if_splits)

lemma on_close_pending:
  "pendingControl (on_close ws s) i = None \<or> pendingControl (on_close ws s) i = pendingControl s i"
  by (auto simp: on_close_def Let_def split: option.splits)

lemma on_close_removes:
  "pendingControl (on_close ws s) j = Some p \<Longrightarrow> replyTo p \<noteq> ws"
  by (auto simp: on_close_def Let_def split: option.splits if_splits)

lemma auth_timeout_quiet:
  assumes "auth_timeout ws s = (s', acts)"
  shows "pendingControl s' = pendingControl s \<and> filter (is_result i) acts = []"
  using assms by (auto simp: auth_timeout_def Let_def ws_close_def is_result_def split: if_splits)

lemma event_defaults_keeps:
  "m_id (event_defaults ev now) = m_id ev"
  "m_type (event_defaults ev now) = Some ''control_result'' \<Longrightarrow> m_type ev = Some ''control_result''"
  by (auto simp: event_defaults_def Let_def truthy_def split: if_splits option.splits)

lemma deliver_events_quiet:
  "deliver_events evs session now s = (s', acts) \<Longrightarrow>
   \<not> list_ex (\<lambda>ev. m_type ev = Some ''control_result'' \<and> m_id ev = i) evs \<Longrightarrow>
   pendingControl s' = pendingControl s \<and> filter (is_result i) acts = []"
proof (induction evs arbitrary: s s' acts)
  case Nil
  then show ?case by simp
next
  case (Cons ev evs)
  let ?m = "event_defaults ev now"
  obtain rs s1 where r: "routed (consumers s) ?m session now s = (rs, s1)"
    by (cases "routed (consumers s) ?m session now s")
  obtain s2 a2 where d: "deliver_events evs session now s1 = (s2, a2)"
    by (cases "deliver_events evs session now s1")
  from Cons.prems(2) have nev: "m_type ?m \<noteq> Some ''control_result'' \<or> m_id ?m \<noteq> i"
    using event_defaults_keeps[of ev now] by auto
  from Cons.prems(2) have rest: "\<not> list_ex (\<lambda>ev. m_type ev = Some ''control_result'' \<and> m_id ev = i) evs"
    by simp
  from Cons.IH[OF d rest] routed_pending[OF r] Cons.prems(1) r d sends_no_result[OF nev]
  show ?case by (auto simp: deliverToConsumers_def)
qed

lemma http_events_quiet:
  assumes "http_events sid evs now s = (s', acts)"
    "\<not> list_ex (\<lambda>ev. m_type ev = Some ''control_result'' \<and> m_id ev = i) evs"
  shows "pendingControl s' = pendingControl s \<and> filter (is_result i) acts = []"
proof (cases "httpBridgeSessions s sid")
  case None
  with assms show ?thesis by (auto simp: http_events_def is_result_def)
next
  case (Some session)
  let ?s1 = "s\<lparr> lastSeen := (lastSeen s)(session := now) \<rparr>"
  obtain s2 a2 where d: "deliver_events evs session now ?s1 = (s2, a2)"
    by (cases "deliver_events evs session now ?s1")
  from deliver_events_quiet[OF d assms(2)] assms(1) Some d show ?thesis
    by (auto simp: http_events_def Let_def is_result_def)
qed

lemma step_correlation:
  assumes nr: "\<not> registers i inp" and np: "\<not> posts_result_event i inp"
    and st: "step s (now, inp) = (s', acts)"
  shows "(pendingControl s' i = pendingControl s i \<and> filter (is_result i) acts = [])
       \<or> (pendingControl s' i = None \<and> filter (is_result i) acts = [])
       \<or> (\<exists>e m. pendingControl s i = Some e \<and> readyState s (replyTo e) = 1
              \<and> pendingControl s' i = None \<and> filter (is_result i) acts = [Send (replyTo e) m])"
proof (cases inp)
  case (Connection ws)
  with st show ?thesis by (auto simp: step_def on_connection_def)
next
  case (WsClosing ws)
  with st show ?thesis by (auto simp: step_def ws_close_def)
next
  case (WsClose ws)
  let ?s0 = "s\<lparr> readyState := (readyState s)(ws := 3) \<rparr>"
  from WsClose st have "s' = on_close ws ?s0" "acts = []" by (auto simp: step_def)
  with on_close_pending[of ws ?s0 i] show ?thesis by auto
next
  case (AuthTimeoutFired ws)
  with st have "auth_timeout ws s = (s', acts)" by (simp add: step_def)
  from auth_timeout_quiet[OF this] show ?thesis by simp
next
  case (HttpEvents sid evs)
  with st have h: "http_events sid evs now s = (s', acts)" by (simp add: step_def)
  from np HttpEvents have "\<not> list_ex (\<lambda>ev. m_type ev = Some ''control_result'' \<and> m_id ev = i) evs"
    by (simp add: posts_result_event_def)
  from http_events_quiet[OF h this] show ?thesis by simp
next
  case (HttpControlResult sid body)
  with st have h: "http_control_result sid body now s = (s', acts)" by (simp add: step_def)
  from http_control_result_cases[OF h, of i] show ?thesis by blast
next
  case (WsMessage ws data)
  with st have om: "on_message ws data now s = (s', acts)" by (simp add: step_def)
  show ?thesis
  proof (cases data)
    case Malformed
    with om show ?thesis by (auto simp: on_message_def ws_close_def is_result_def)
  next
    case (Parsed m)
    from nr WsMessage Parsed have req: "is_request m \<Longrightarrow> truthy (m_id m) \<and> m_id m \<noteq> i"
      by (auto simp: registers_def split: if_splits)
    consider (unauth) "\<not> isAuthenticated (conns s ws)"
      | (ping) "isAuthenticated (conns s ws)" "m_type m = Some ''ping''"
      | (bridge) "isAuthenticated (conns s ws)" "m_type m \<noteq> Some ''ping''"
          "role (conns s ws) = Some ''bridge''"
      | (consumer) "isAuthenticated (conns s ws)" "m_type m \<noteq> Some ''ping''"
          "role (conns s ws) \<noteq> Some ''bridge''" "role (conns s ws) = Some ''consumer''"
      | (other) "isAuthenticated (conns s ws)" "m_type m \<noteq> Some ''ping''"
          "role (conns s ws) \<noteq> Some ''bridge''" "role (conns s ws) \<noteq> Some ''consumer''"
      by blast
    then show ?thesis
    proof cases
      case unauth
      with om Parsed have "handle_unauthenticated ws m now s = (s', acts)"
        by (simp add: on_message_def)
      from unauthenticated_quiet[OF this] show ?thesis by simp
    next
      case ping
      with om Parsed show ?thesis by (auto simp: on_message_def is_result_def)
    next
      case other
      with om Parsed show ?thesis by (auto simp: on_message_def)
    next
      case bridge
      consider (hello) "m_type m = Some ''hello''"
        | (result) "m_type m = Some ''control_result''"
        | (request) "m_type m = Some ''control_request''"
        | (shot) "m_type m = Some ''screenshot''"
        | (event) "m_type m \<noteq> Some ''hello''" "m_type m \<noteq> Some ''control_result''"
            "m_type m \<noteq> Some ''control_request''" "m_type m \<noteq> Some ''screenshot''"
        by blast
      then show ?thesis
      proof cases
        case hello
        with om Parsed bridge have "handle_hello ws m s = (s', acts)"
          by (simp add: on_message_def)
        from hello_quiet[OF this] show ?thesis by simp
      next
        case result
        with om Parsed bridge have "handle_control_result m s = (s', acts)"
          by (simp add: on_message_def)
        from control_result_cases[OF this, of i] result show ?thesis
          by (cases "m_id m = i") (auto simp: is_result_def)
      next
        case request
        with om Parsed bridge have h: "handle_bridge_control_request ws m now s = (s', acts)"
          by (simp add: on_message_def)
        from request req have "m_id m \<noteq> i" by (simp add: is_request_def)
        from bridge_request_quiet[OF h this] show ?thesis by simp
      next
        case shot
        with om Parsed bridge have h: "handle_screenshot ws m now s = (s', acts)"
          by (simp add: on_message_def)
        from shot have "m_type m \<noteq> Some ''control_result''" by simp
        from screenshot_quiet[OF h this] show ?thesis by simp
      next
        case event
        with om Parsed bridge have h: "broadcast ws m now s = (s', acts)"
          by (simp add: on_message_def)
        from broadcast_quiet[OF h event(2)] show ?thesis by simp
      qed
    next
      case consumer
      consider (subscribe) "m_type m = Some ''subscribe''"
        | (request) "m_type m \<noteq> Some ''subscribe''" "is_request m"
        | (result) "m_type m = Some ''control_result''"
        | (ignored) "m_type m \<noteq> Some ''subscribe''" "\<not> is_request m"
            "m_type m \<noteq> Some ''control_result''"
        by blast
      then show ?thesis
      proof cases
        case subscribe
        with om Parsed consumer have "handle_subscribe ws m s = (s', acts)"
          by (simp add: on_message_def)
        from subscribe_quiet[OF this] show ?thesis by simp
      next
        case request
        with om Parsed consumer have h: "handle_consumer_control ws m now s = (s', acts)"
          by (auto simp: on_message_def is_request_def)
        from req request have "truthy (m_id m)" "m_id m \<noteq> i" by simp_all
        from consumer_control_quiet[OF h this] show ?thesis by simp
      next
        case result
        with om Parsed consumer have "handle_control_result m s = (s', acts)"
          by (simp add: on_message_def)
        from control_result_cases[OF this, of i] result show ?thesis
          by (cases "m_id m = i") (auto simp: is_result_def)
      next
        case ignored
        with om Parsed consumer show ?thesis
          by (auto simp: on_message_def is_request_def)
      qed
    qed
  qed
qed

lemma run_correlation:
  assumes "foreign i tis"
  shows "(pendingControl s i = None \<longrightarrow> filter (is_result i) (snd (run s tis)) = [])
       \<and> (\<forall>e. pendingControl s i = Some e \<longrightarrow>
             filter (is_result i) (snd (run s tis)) = []
           \<or> (\<exists>m. filter (is_result i) (snd (run s tis)) = [Send (replyTo e) m]))"
  using assms
proof (induction tis arbitrary: s)
  case Nil
  then show ?case by simp
next
  case (Cons ti tis)
  obtain now inp where ti: "ti = (now, inp)" by (cases ti)
  obtain s1 a1 where st: "step s (now, inp) = (s1, a1)" by (cases "step s (now, inp)")
  obtain s2 a2 where rn: "run s1 tis = (s2, a2)" by (cases "run s1 tis")
  from Cons.prems ti have nr: "\<not> registers i inp" and np: "\<not> posts_result_event i inp"
    and fr: "foreign i tis"
    by (simp_all add: foreign_def)
  have out: "filter (is_result i) (snd (run s (ti # tis)))
             = filter (is_result i) a1 @ filter (is_result i) a2"
    using ti st rn by simp
  from Cons.IH[OF fr, of s1] rn have ih:
    "pendingControl s1 i = None \<longrightarrow> filter (is_result i) a2 = []"
    "\<forall>e. pendingControl s1 i = Some e \<longrightarrow>
       filter (is_result i) a2 = [] \<or> (\<exists>m. filter (is_result i) a2 = [Send (replyTo e) m])"
    by simp_all
  from step_correlation[OF nr np st] ih show ?case
    unfolding out by (cases "pendingControl s i") auto
qed

lemma bridge_request_bound:
  assumes "handle_bridge_control_request ws m now s = (s', acts)"
    and "m_type m \<noteq> Some ''control_result''"
  shows "length (filter (is_result i) acts) + pending_count s' i \<le> pending_count s i + 1"
proof -
  obtain rs s1 where r: "routed (consumers s) (m\<lparr> m_level := Some ''info'' \<rparr>) ws now s = (rs, s1)"
    by (cases "routed (consumers s) (m\<lparr> m_level := Some ''info'' \<rparr>) ws now s")
  have fw: "filter (is_result i) (map (\<lambda>consumer. Send consumer m) rs) = []"
    using assms(2) by (simp add: sends_no_result)
  show ?thesis
  proof (cases "rs = []")
    case True
    with assms(1) r routed_pending[OF r] show ?thesis
      by (auto simp: handle_bridge_control_request_def Let_def pending_count_def)
  next
    case False
    with assms(1) r fw show ?thesis
      by (auto simp: handle_bridge_control_request_def Let_def pending_count_def)
  qed
qed

lemma consumer_control_bound:
  assumes "handle_consumer_control ws m now s = (s', acts)"
  shows "length (filter (is_result i) acts) + pending_count s' i \<le> pending_count s i + 1"
proof -
  let ?reqId = "str_or (m_id m) (clientId_text (conns s ws) @ ''-'' @ show_int now)"
  let ?payload = "m\<lparr> m_type := Some ''control_request'', m_id := Some ?reqId \<rparr>"
  let ?targets = "filter (\<lambda>bridgeWs. readyState s bridgeWs = 1
                              \<and> bridgeHasCapability
                                  (map_option b_capabilities (bridgeCapabilities s bridgeWs))
                                  (Some ''control'')) (bridges s)"
  let ?s1 = "s\<lparr> pendingControl := (pendingControl s)(Some ?reqId :=
                          Some \<lparr> replyTo = ws, origin = ''consumer'' \<rparr>) \<rparr>"
  show ?thesis
  proof (cases "?targets = []")
    case True
    with assms show ?thesis
      by (auto simp: handle_consumer_control_def Let_def pending_count_def)
  next
    case False
    obtain s2 a2 where f: "forward_control ?targets ?payload ?s1 = (s2, a2)"
      by (cases "forward_control ?targets ?payload ?s1")
    have q: "pendingControl s2 = pendingControl ?s1 \<and> filter (is_result i) a2 = []"
      by (rule forward_control_quiet[OF f]) simp
    from assms False f have "s' = s2"
      and "acts = a2 @ [Send ws (obj\<lparr> m_type := Some ''control_forwarded'',
                                          m_id := Some ?reqId,
                                          m_delivered := Some (length ?targets) \<rparr>)]"
      by (simp_all add: handle_consumer_control_def Let_def)
    with q show ?thesis
      by (simp add: pending_count_def is_result_def)
  qed
qed

lemma step_bound:
  assumes np: "\<not> posts_result_event i inp" and st: "step s (now, inp) = (s', acts)"
  shows "length (filter (is_result i) acts) + pending_count s' i
         \<le> pending_count s i + (if registers i inp then 1 else 0)"
proof (cases "registers i inp")
  case False
  from step_correlation[OF False np st] show ?thesis
    by (auto simp: pending_count_def)
next
  case True
  then obtain ws m where inp: "inp = WsMessage ws (Parsed m)" and rq: "is_request m"
    by (auto simp: registers_def split: input.splits wsdata.splits if_splits)
  from st inp have om: "on_message ws (Parsed m) now s = (s', acts)" by (simp add: step_def)
  from rq have ty: "m_type m \<noteq> Some ''ping''" "m_type m \<noteq> Some ''hello''"
    "m_type m \<noteq> Some ''control_result''" "m_type m \<noteq> Some ''screenshot''"
    "m_type m \<noteq> Some ''subscribe''"
    by (auto simp: is_request_def)
  have quiet: "pendingControl s' i = pendingControl s i \<and> filter (is_result i) acts = []
               \<Longrightarrow> ?thesis"
    by (simp add: pending_count_def)
  consider (unauth) "\<not> isAuthenticated (conns s ws)"
    | (bridge) "isAuthenticated (conns s ws)" "role (conns s ws) = Some ''bridge''"
    | (consumer) "isAuthenticated (conns s ws)" "role (conns s ws) \<noteq> Some ''bridge''"
        "role (conns s ws) = Some ''consumer''"
    | (other) "isAuthenticated (conns s ws)" "role (conns s ws) \<noteq> Some ''bridge''"
        "role (conns s ws) \<noteq> Some ''consumer''"
    by blast
  then show ?thesis
  proof cases
    case unauth
    with om have "handle_unauthenticated ws m now s = (s', acts)" by (simp add: on_message_def)
    from unauthenticated_quiet[OF this] quiet show ?thesis by simp
  next
    case other
    with om ty have "s' = s" "acts = []" by (simp_all add: on_message_def)
    with quiet show ?thesis by simp
  next
    case bridge
    show ?thesis
    proof (cases "m_type m = Some ''control_request''")
      case True
      with om bridge ty have "handle_bridge_control_request ws m now s = (s', acts)"
        by (simp add: on_message_def)
      from bridge_request_bound[OF this ty(3)] True show ?thesis
        using \<open>registers i inp\<close> by simp
    next
      case False
      with om bridge ty have h: "broadcast ws m now s = (s', acts)"
        by (simp add: on_message_def)
      from broadcast_quiet[OF h ty(3)] quiet show ?thesis by simp
    qed
  next
    case consumer
    with om ty rq have "handle_consumer_control ws m now s = (s', acts)"
      by (auto simp: on_message_def is_request_def)
    from consumer_control_bound[OF this] show ?thesis
      using \<open>registers i inp\<close> by simp
  qed
qed

lemma run_bound:
  assumes "no_result_events i tis"
  shows "length (filter (is_result i) (snd (run s tis))) + pending_count (fst (run s tis)) i
         \<le> pending_count s i + requests_for i tis"
  using assms
proof (induction tis arbitrary: s)
  case Nil
  show ?case by (simp add: requests_for_def)
next
  case (Cons ti tis)
  obtain now inp where ti: "ti = (now, inp)" by (cases ti)
  obtain s1 a1 where st: "step s (now, inp) = (s1, a1)" by (cases "step s (now, inp)")
  obtain s2 a2 where rn: "run s1 tis = (s2, a2)" by (cases "run s1 tis")
  from Cons.prems ti have np: "\<not> posts_result_event i inp" and rest: "no_result_events i tis"
    by (simp_all add: no_result_events_def)
  from Cons.IH[OF rest, of s1] rn have ih:
    "length (filter (is_result i) a2) + pending_count s2 i
     \<le> pending_count s1 i + requests_for i tis" by simp
  from step_bound[OF np st] have sb:
    "length (filter (is_result i) a1) + pending_count s1 i
     \<le> pending_count s i + (if registers i inp then 1 else 0)" .
  have rq: "requests_for i (ti # tis) = (if registers i inp then 1 else 0) + requests_for i tis"
    by (simp add: requests_for_def ti)
  from ih sb show ?case
    unfolding rq using ti st rn by simp
qed

lemma http_control_result_ignored:
  assumes "pendingControl s0 (m_id body) = None"
  shows "filter (\<lambda>a. case a of Send r f \<Rightarrow> True | _ \<Rightarrow> False)
           (snd (http_control_result sid body now s0)) = []
       \<and> pendingControl (fst (http_control_result sid body now s0)) = pendingControl s0"
  using assms by (auto simp: http_control_result_def Let_def split: option.splits)

text \<open>
  The correlator by itself. Let the broker hold a pending entry \<open>e\<close> for the request id \<open>i\<close>.
  Along every sequence of inputs (frames on any socket, closing sockets, timers, HTTP event
  batches and HTTP control results) in which no control request arrives that carries the id
  \<open>i\<close> or carries no id (the broker makes one up for it), and no event batch carries a frame
  typed \<^verbatim>\<open>control_result\<close> for \<open>i\<close>:
  \<^item> at most one \<^verbatim>\<open>control_result\<close> frame with id \<open>i\<close> is written to any socket, and it is
    written to the recorded \<open>replyTo\<close>;
  \<^item> the step that writes it finds \<open>replyTo\<close> open (\<^verbatim>\<open>readyState\<close> 1) and deletes the entry.

  With no entry for \<open>i\<close> no such frame is written at all: a \<^verbatim>\<open>control_result\<close> that finds
  no entry leaves the state as it is and writes nothing (over HTTP the session's
  \<^verbatim>\<open>lastSeen\<close> is refreshed and the request answered). After the \<^verbatim>\<open>close\<close> event of a
  socket no pending entry names it as \<open>replyTo\<close>.

  When requests for \<open>i\<close> do arrive in the run, the \<^verbatim>\<open>control_result\<close> frames with id \<open>i\<close>
  written to sockets number at most the pending entries for \<open>i\<close> at the start (none or one)
  plus the requests for \<open>i\<close> that arrived: one per request, the results the broker makes
  up for a request without target included.
\<close>

theorem control_correlation:
  assumes "pendingControl s i = Some e" and "foreign i tis"
  shows "length (filter (is_result i) (snd (run s tis))) \<le> 1
       \<and> (\<forall>a \<in> set (filter (is_result i) (snd (run s tis))). \<exists>m. a = Send (replyTo e) m)
       \<and> (\<not> registers i inp \<and> \<not> posts_result_event i inp
            \<and> filter (is_result i) (snd (step s (now, inp))) \<noteq> []
          \<longrightarrow> readyState s (replyTo e) = 1 \<and> pendingControl (fst (step s (now, inp))) i = None)
       \<and> (pendingControl s0 i = None \<and> foreign i tis0
          \<longrightarrow> filter (is_result i) (snd (run s0 tis0)) = [])
       \<and> (pendingControl s0 (m_id m) = None
          \<longrightarrow> handle_control_result m s0 = (s0, [])
            \<and> filter (\<lambda>a. case a of Send r f \<Rightarrow> True | _ \<Rightarrow> False)
                 (snd (http_control_result sid m now s0)) = []
            \<and> pendingControl (fst (http_control_result sid m now s0)) = pendingControl s0)
       \<and> (\<forall>j p. pendingControl (fst (step s0 (now, WsClose w))) j = Some p \<longrightarrow> replyTo p \<noteq> w)
       \<and> (no_result_events i tis0
          \<longrightarrow> length (filter (is_result i) (snd (run s0 tis0)))
                \<le> pending_count s0 i + requests_for i tis0)"
proof -
  define F where "F = filter (is_result i) (snd (run s tis))"
  from run_correlation[OF assms(2), of s] assms(1) have one:
    "F = [] \<or> (\<exists>m. F = [Send (replyTo e) m])"
    by (simp add: F_def)
  then have "length F \<le> 1" and "\<forall>a \<in> set F. \<exists>m. a = Send (replyTo e) m"
    by auto
  then have c1: "length (filter (is_result i) (snd (run s tis))) \<le> 1"
    and c2: "\<forall>a \<in> set (filter (is_result i) (snd (run s tis))). \<exists>m. a = Send (replyTo e) m"
    by (simp_all only: F_def)
  have c3: "\<not> registers i inp \<and> \<not> posts_result_event i inp
            \<and> filter (is_result i) (snd (step s (now, inp))) \<noteq> []
          \<longrightarrow> readyState s (replyTo e) = 1 \<and> pendingControl (fst (step s (now, inp))) i = None"
  proof (intro impI, elim conjE)
    assume nr: "\<not> registers i inp" and np: "\<not> posts_result_event i inp"
      and ne: "filter (is_result i) (snd (step s (now, inp))) \<noteq> []"
    obtain s' acts where st: "step s (now, inp) = (s', acts)" by (cases "step s (now, inp)")
    from step_correlation[OF nr np st] ne st assms(1)
    show "readyState s (replyTo e) = 1 \<and> pendingControl (fst (step s (now, inp))) i = None"
      by auto
  qed
  have c4: "pendingControl s0 i = None \<and> foreign i tis0
          \<longrightarrow> filter (is_result i) (snd (run s0 tis0)) = []"
    using run_correlation[of i tis0 s0] by blast
  have c5: "pendingControl s0 (m_id m) = None
          \<longrightarrow> handle_control_result m s0 = (s0, [])
            \<and> filter (\<lambda>a. case a of Send r f \<Rightarrow> True | _ \<Rightarrow> False)
                 (snd (http_control_result sid m now s0)) = []
            \<and> pendingControl (fst (http_control_result sid m now s0)) = pendingControl s0"
    using http_control_result_ignored[of s0 m sid now]
    by (simp add: handle_control_result_def)
  have c6: "\<forall>j p. pendingControl (fst (step s0 (now, WsClose w))) j = Some p \<longrightarrow> replyTo p \<noteq> w"
    by (auto simp: step_def dest: on_close_removes)
  have c7: "no_result_events i tis0
          \<longrightarrow> length (filter (is_result i) (snd (run s0 tis0)))
                \<le> pending_count s0 i + requests_for i tis0"
  proof
    assume "no_result_events i tis0"
    from run_bound[OF this, of s0] show
      "length (filter (is_result i) (snd (run s0 tis0)))
       \<le> pending_count s0 i + requests_for i tis0" by linarith
  qed
  from c1 c2 c3 c4 c5 c6 c7 show ?thesis by blast
qed

text \<open>In the control scenario: the bridge answers \<^verbatim>\<open>req-1\<close> twice, then the consumer closes.\<close>

theorem control_correlation_witness:
  "pendingControl (fst (run (new_broker ''s'' 0) control_scenario)) (Some ''req-1'')
     = Some \<lparr> replyTo = 1, origin = ''consumer'' \<rparr>
   \<and> foreign (Some ''req-1'')
        [(7, WsMessage 0 (control_result_frame ''req-1'')),
         (8, WsMessage 0 (control_result_frame ''req-1'')), (9, WsClose 1)]
   \<and> length (filter (is_result (Some ''req-1''))
        (snd (run (fst (run (new_broker ''s'' 0) control_scenario))
               [(7, WsMessage 0 (control_result_frame ''req-1'')),
                (8, WsMessage 0 (control_result_frame ''req-1'')), (9, WsClose 1)]))) = 1"
proof -
  let ?s = "fst (run (new_broker ''s'' 0) control_scenario)"
  let ?tis = "[(7, WsMessage 0 (control_result_frame ''req-1'')),
               (8, WsMessage 0 (control_result_frame ''req-1'')), (9::int, WsClose 1)]"
  have h1: "pendingControl ?s (Some ''req-1'') = Some \<lparr> replyTo = 1, origin = ''consumer'' \<rparr>"
    by code_simp
  have h2: "foreign (Some ''req-1'') ?tis" by code_simp
  have h3: "filter (is_result (Some ''req-1'')) (snd (run ?s ?tis)) \<noteq> []" by code_simp
  from control_correlation[OF h1 h2]
  have "length (filter (is_result (Some ''req-1'')) (snd (run ?s ?tis))) \<le> 1" by blast
  with h3 have "length (filter (is_result (Some ''req-1'')) (snd (run ?s ?tis))) = 1"
    by (cases "filter (is_result (Some ''req-1'')) (snd (run ?s ?tis))") auto
  with h1 h2 show ?thesis by blast
qed

text \<open>
  Claim C2 says that at most one \<^verbatim>\<open>control_result\<close> with the id of a pending request is ever
  sent to the recorded \<open>replyTo\<close>. The event endpoint breaks it: \<^verbatim>\<open>POST /bridge/events\<close> hands
  every frame of a batch to \<^verbatim>\<open>deliverToConsumers\<close>, whatever its type. In the scenario of the
  posted results the request \<^verbatim>\<open>req-1\<close> of consumer \<open>1\<close> is pending and no further request
  arrives. The two frames of the batch, typed \<^verbatim>\<open>control_result\<close> with the id \<^verbatim>\<open>req-1\<close>, are
  fanned out to consumer \<open>1\<close>, whose default levels admit the level error; the pending
  entry is still there after the batch, and the answer of bridge \<open>0\<close> is then forwarded
  through it. Three \<^verbatim>\<open>control_result\<close> frames with the id \<^verbatim>\<open>req-1\<close> reach consumer \<open>1\<close>; the
  first two carry the time stamp \<open>8\<close> that the event endpoint fills in. The bridge branch
  of \<^verbatim>\<open>ws.on('message')\<close> takes every frame typed \<^verbatim>\<open>control_result\<close> to the pending entry and
  returns before the fan-out: when bridge \<open>0\<close> sends the same two frames on its socket and
  then its answer, one frame reaches consumer \<open>1\<close>.
\<close>

theorem control_result_fanned_out:
  "pendingControl (http_connect ''h1'' 2 7 (fst (run (new_broker ''s'' 0) control_scenario)))
       (Some ''req-1'') = Some \<lparr> replyTo = 1, origin = ''consumer'' \<rparr>
   \<and> requests_for (Some ''req-1'') posted_results_scenario = 0
   \<and> map (\<lambda>a. case a of Send r m \<Rightarrow> (r, m_type m, m_id m, m_timestamp m)
                 | _ \<Rightarrow> (0, None, None, None))
        (filter (is_result (Some ''req-1''))
          (snd (run (http_connect ''h1'' 2 7 (fst (run (new_broker ''s'' 0) control_scenario)))
                  posted_results_scenario)))
     = [(1, Some ''control_result'', Some ''req-1'', Some 8),
        (1, Some ''control_result'', Some ''req-1'', Some 8),
        (1, Some ''control_result'', Some ''req-1'', None)]
   \<and> pendingControl
        (fst (run (http_connect ''h1'' 2 7 (fst (run (new_broker ''s'' 0) control_scenario)))
                (take 1 posted_results_scenario)))
        (Some ''req-1'') = Some \<lparr> replyTo = 1, origin = ''consumer'' \<rparr>
   \<and> length (filter (is_result (Some ''req-1''))
        (snd (run (http_connect ''h1'' 2 7 (fst (run (new_broker ''s'' 0) control_scenario)))
                [(8, WsMessage 0 (Parsed (result_event ''req-1''))),
                 (8, WsMessage 0 (Parsed (result_event ''req-1''))),
                 (9, WsMessage 0 (control_result_frame ''req-1''))]))) = 1"
  by code_simp

subsection \<open>Authentication\<close>



subsection \<open>Frames that fail to process\<close>




lemma thrown_after_write:
  "(unprocessable ws (Json m lv cp) s \<and> m_type m = Some ''hello''
        \<longrightarrow> undeclared (on_data ws (Json m lv cp) now s)
              = Some (Meta Other (m_route m) (m_url m) (num_or (m_protocol m) 1)
                        (m_platform m) (m_projectId m))
          \<and> bridgeCapabilities (state_after (on_data ws (Json m lv cp) now s)) ws = None)
   \<and> (unprocessable ws (Json m lv cp) s \<and> m_type m = Some ''subscribe''
        \<longrightarrow> undeclared (on_data ws (Json m lv cp) now s)
              = Some (Subscription (field_or lv [''errors'']) (field_or cp [])
                        (if toLowerCase (str_or (m_llm_filter m) ''off'') \<in> set FILTER_LEVELS
                         then toLowerCase (str_or (m_llm_filter m) ''off'') else ''off''))
          \<and> consumerSubscriptions (state_after (on_data ws (Json m lv cp) now s)) ws = None)"
  by (auto simp: unprocessable_def on_data_def try_block_def hello_block_def subscribe_block_def
      field_or_def ws_close_def Let_def)





subsection \<open>The screenshot clock\<close>

text \<open>
  Claim C6 says that the last-screenshot time of a bridge moves only when a screenshot is
  forwarded. In the screenshot scenario the bridge's clock is unset; a screenshot without
  \<^verbatim>\<open>mime\<close> at time 100 is answered with \<^verbatim>\<open>invalid_format\<close> and forwarded to nobody, yet the
  clock is then 100, and a well-formed screenshot at time 600 is refused with \<^verbatim>\<open>rate_limit\<close>
  and \<^verbatim>\<open>retryAfterMs\<close> 1500.
\<close>

theorem invalid_screenshot_moves_clock:
  "bridgeLastScreenshot (fst (run (new_broker ''s'' 0) screenshot_scenario)) 0 = None
   \<and> bridgeLastScreenshot
       (fst (run (new_broker ''s'' 0)
              (screenshot_scenario @ [(100, WsMessage 0 (Parsed screenshot_without_mime))]))) 0
     = Some 100
   \<and> snd (step (fst (run (new_broker ''s'' 0) screenshot_scenario))
            (100, WsMessage 0 (Parsed screenshot_without_mime)))
     = [Send 0 (rate_limit_notice ''invalid_format'' None
                  ''Screenshot missing required fields: mime, data'')]
   \<and> snd (step (fst (run (new_broker ''s'' 0)
                     (screenshot_scenario @ [(100, WsMessage 0 (Parsed screenshot_without_mime))])))
            (600, WsMessage 0 (Parsed valid_screenshot)))
     = [Send 0 (rate_limit_notice ''rate_limit'' (Some 1500)
                  ''Screenshot rate limit: wait 2s before next screenshot'')]"
  by code_simp

subsection \<open>The capability gate\<close>

lemma no_hello_no_capability:
  "\<not> bridgeHasCapability (map_option b_capabilities None) cap"
  by (simp add: bridgeHasCapability_def arr_or_def Let_def)

lemma routed_no_hello:
  assumes "bridgeCapabilities s b = None"
    and "toLowerCase (str_or (m_type m) []) \<in> set gated_types"
  shows "fst (routed cs m b now s) = []"
proof -
  obtain rs s1 where r: "routed cs m b now s = (rs, s1)" by (cases "routed cs m b now s")
  have "c \<notin> set rs" for c
  proof
    assume "c \<in> set rs"
    from routed_sound[OF r this] assms no_hello_no_capability show False by simp
  qed
  then have "rs = []" by (cases rs) auto
  with r show ?thesis by simp
qed

lemma gated_not_control:
  assumes "toLowerCase (str_or t []) \<in> set gated_types"
  shows "t \<noteq> Some ''ping'' \<and> t \<noteq> Some ''hello'' \<and> t \<noteq> Some ''control_result''
       \<and> t \<noteq> Some ''control_request''"
  using assms
  by (auto simp: gated_types_def str_or_def toLowerCase_def lower_char_def)

text \<open>
  Claim C4 says that a gated event from a bridge that has sent no \<^verbatim>\<open>hello\<close> is delivered to
  the consumers whose own gates it passes. In the scenario without \<^verbatim>\<open>hello\<close> a pageview at
  level info passes the level gate and the capability filter of consumer \<open>1\<close>, which is
  open, and is not delivered to it.
\<close>

theorem capability_gate_counterexample:
  "bridgeCapabilities (fst (run (new_broker ''s'' 0) no_hello_scenario)) 0 = None
   \<and> readyState (fst (run (new_broker ''s'' 0) no_hello_scenario)) 1 = 1
   \<and> subscriptionIncludesLevel
        (Some (consumer_levels (fst (run (new_broker ''s'' 0) no_hello_scenario)) 1))
        (Some ''info'')
   \<and> consumerWantsCapability
        (map_option sub_capabilities
           (consumerSubscriptions (fst (run (new_broker ''s'' 0) no_hello_scenario)) 1))
        (Some ''pageview'')
   \<and> delivered_to 1 (snd (step (fst (run (new_broker ''s'' 0) no_hello_scenario))
                            (6, WsMessage 0 (event_frame ''pageview'' ''info'')))) = []"
  by code_simp

text \<open>
  Claim C4 as amended. For an event of a gated type (\<^verbatim>\<open>pageview\<close>, \<^verbatim>\<open>screenshot\<close>, \<^verbatim>\<open>control\<close>,
  \<^verbatim>\<open>network\<close>, \<^verbatim>\<open>navigation\<close>, compared in lower case) from an authenticated bridge the
  bridge-side check is never skipped: the event reaches a consumer only if the capabilities
  recorded from the bridge's \<^verbatim>\<open>hello\<close> contain its type. A bridge without \<^verbatim>\<open>hello\<close> has none
  recorded: its gated events reach nobody, and a \<^verbatim>\<open>screenshot\<close> frame is answered with the
  notice \<^verbatim>\<open>missing_capability\<close>.
\<close>

theorem capability_gate_needs_hello:
  assumes "isAuthenticated (conns s b)" and "role (conns s b) = Some ''bridge''"
    and "toLowerCase (str_or (m_type e) []) \<in> set gated_types"
  shows "(\<forall>c m'. Send c m' \<in> set (snd (step s (now, WsMessage b (Parsed e))))
                 \<and> m_type m' \<noteq> Some ''rate_limit_notice''
            \<longrightarrow> bridgeHasCapability (map_option b_capabilities (bridgeCapabilities s b))
                  (Some (toLowerCase (str_or (m_type e) []))))
       \<and> (bridgeCapabilities s b = None
            \<longrightarrow> snd (step s (now, WsMessage b (Parsed e)))
                  = (if m_type e = Some ''screenshot''
                     then [Send b (rate_limit_notice ''missing_capability'' None
                                     ''Screenshot capability not advertised in hello'')]
                     else []))"
proof -
  note nc = gated_not_control[OF assms(3)]
  obtain rs s1 where r: "routed (consumers s) e b now s = (rs, s1)"
    by (cases "routed (consumers s) e b now s")
  have step_eq: "step s (now, WsMessage b (Parsed e))
      = (if m_type e = Some ''screenshot'' then handle_screenshot b e now s
         else broadcast b e now s)"
    using assms(1,2) nc by (simp add: step_def on_message_def)
  have deliv: "Send c m' \<in> set (snd (step s (now, WsMessage b (Parsed e))))
      \<Longrightarrow> m_type m' \<noteq> Some ''rate_limit_notice'' \<Longrightarrow> c \<in> set rs" for c m'
    using r unfolding step_eq
    by (auto simp: handle_screenshot_def broadcast_def Let_def rate_limit_notice_def
        split: if_splits option.splits)
  have a: "\<forall>c m'. Send c m' \<in> set (snd (step s (now, WsMessage b (Parsed e))))
                 \<and> m_type m' \<noteq> Some ''rate_limit_notice''
            \<longrightarrow> bridgeHasCapability (map_option b_capabilities (bridgeCapabilities s b))
                  (Some (toLowerCase (str_or (m_type e) [])))"
    using deliv routed_sound[OF r] assms(3) by blast
  have b: "bridgeCapabilities s b = None
            \<longrightarrow> snd (step s (now, WsMessage b (Parsed e)))
                  = (if m_type e = Some ''screenshot''
                     then [Send b (rate_limit_notice ''missing_capability'' None
                                     ''Screenshot capability not advertised in hello'')]
                     else [])"
  proof
    assume nb: "bridgeCapabilities s b = None"
    from routed_no_hello[OF nb assms(3), of "consumers s" now] r have "rs = []" by simp
    with r nb show "snd (step s (now, WsMessage b (Parsed e)))
                  = (if m_type e = Some ''screenshot''
                     then [Send b (rate_limit_notice ''missing_capability'' None
                                     ''Screenshot capability not advertised in hello'')]
                     else [])"
      unfolding step_eq by (simp add: handle_screenshot_def broadcast_def)
  qed
  from a b show ?thesis by blast
qed

text \<open>The amended claim at a pageview and at a screenshot in the scenario without \<^verbatim>\<open>hello\<close>.\<close>

theorem capability_gate_needs_hello_witness:
  "isAuthenticated (conns (fst (run (new_broker ''s'' 0) no_hello_scenario)) 0)
   \<and> role (conns (fst (run (new_broker ''s'' 0) no_hello_scenario)) 0) = Some ''bridge''
   \<and> bridgeCapabilities (fst (run (new_broker ''s'' 0) no_hello_scenario)) 0 = None
   \<and> snd (step (fst (run (new_broker ''s'' 0) no_hello_scenario))
            (6, WsMessage 0 (event_frame ''pageview'' ''info''))) = []
   \<and> snd (step (fst (run (new_broker ''s'' 0) no_hello_scenario))
            (7, WsMessage 0 (Parsed valid_screenshot)))
      = [Send 0 (rate_limit_notice ''missing_capability'' None
                   ''Screenshot capability not advertised in hello'')]"
proof -
  let ?s = "fst (run (new_broker ''s'' 0) no_hello_scenario)"
  let ?p = "obj\<lparr> m_type := Some ''pageview'', m_level := Some ''info'', m_message := Some ''m'' \<rparr>"
  have h1: "isAuthenticated (conns ?s 0)" by code_simp
  have h2: "role (conns ?s 0) = Some ''bridge''" by code_simp
  have h3: "bridgeCapabilities ?s 0 = None" by code_simp
  have g1: "toLowerCase (str_or (m_type ?p) []) \<in> set gated_types" by code_simp
  have g2: "toLowerCase (str_or (m_type valid_screenshot) []) \<in> set gated_types" by code_simp
  have t: "m_type ?p \<noteq> Some ''screenshot''" "m_type valid_screenshot = Some ''screenshot''"
    by (simp_all add: valid_screenshot_def)
  from capability_gate_needs_hello[OF h1 h2 g1, of 6] h3 t(1)
  have a: "snd (step ?s (6, WsMessage 0 (Parsed ?p))) = []" by simp
  from capability_gate_needs_hello[OF h1 h2 g2, of 7] h3 t(2)
  have b: "snd (step ?s (7, WsMessage 0 (Parsed valid_screenshot)))
      = [Send 0 (rate_limit_notice ''missing_capability'' None
                   ''Screenshot capability not advertised in hello'')]" by simp
  from h1 h2 h3 a b show ?thesis by (simp add: event_frame_def)
qed

subsection \<open>The default of the subscribed levels\<close>

text \<open>
  Claim C9 says that a subscription with an empty \<^verbatim>\<open>levels\<close> list is treated as \<^verbatim>\<open>[errors]\<close>, so
  that the consumer still receives the events at level error. The broker does not do so.
  After consumer \<open>1\<close> subscribed with \<^verbatim>\<open>levels: []\<close> its levels are the empty list, and an
  event at level error is not delivered to it although its socket is open; had it not
  subscribed at all, the event would have reached it. The broker's own
  \<^verbatim>\<open>subscriptionIncludesLevel\<close> replaces the list by \<^verbatim>\<open>[errors]\<close> with \<^verbatim>\<open>||\<close>, which keeps an empty
  array, and answers no for the empty list and the level error; the predicate of
  \<^verbatim>\<open>src/host-utils.ts\<close>, which tests the length, answers yes.
\<close>

theorem empty_levels_not_defaulted:
  "consumer_levels (fst (run (new_broker ''s'' 0) empty_levels_scenario)) 1 = []
   \<and> readyState (fst (run (new_broker ''s'' 0) empty_levels_scenario)) 1 = 1
   \<and> delivered_to 1 (snd (step (fst (run (new_broker ''s'' 0) empty_levels_scenario))
                            (6, WsMessage 0 (event_frame ''error'' ''error'')))) = []
   \<and> delivered_to 1
        (snd (step (fst (run (new_broker ''s'' 0) (take 4 empty_levels_scenario)))
                (6, WsMessage 0 (event_frame ''error'' ''error''))))
     = [obj\<lparr> m_type := Some ''error'', m_level := Some ''error'', m_message := Some ''m'' \<rparr>]
   \<and> subscriptionIncludesLevel (Some []) (Some ''error'') = False
   \<and> subscriptionIncludesLevel (Some [''errors'']) (Some ''error'') = True
   \<and> host_utils_subscriptionIncludesLevel (Some []) (Some ''error'') = True"
  by code_simp

section \<open>Further properties of the bridge client\<close>

subsection \<open>The handshake\<close>

lemma helloMessage_type: "m_type (helloMessage c) = Some ''hello''"
  by (simp add: helloMessage_def Let_def split: option.splits prod.splits)

lemma handleIncoming_no_hello:
  "filter (\<lambda>m. m_type m = Some ''hello'') (snd (handleIncoming c raw)) = []"
  by (auto simp: handleIncoming_def sendRaw_def control_response_def
      split: wsdata.splits option.splits sum.splits)

text \<open>
  Claim C7 says that the client never writes \<^verbatim>\<open>hello\<close> before an \<^verbatim>\<open>auth_success\<close> frame has
  arrived. A fresh client that connects and whose socket opens writes \<^verbatim>\<open>hello\<close> although
  no frame has arrived at all.
\<close>

theorem handshake_order_counterexample:
  "\<not> spec_hello_after_auth_success Some (new_client ''secret'' [] ''node'' None) False
       [CallConnect, SocketOpen]"
  by code_simp

text \<open>
  Claim C7 as amended. When the socket opens the client writes \<^verbatim>\<open>auth\<close> and, in the same
  callback, \<^verbatim>\<open>hello\<close> right after it, without waiting for \<^verbatim>\<open>auth_success\<close>; and no inbound
  frame (\<^verbatim>\<open>auth_success\<close>, \<^verbatim>\<open>ping\<close>, \<^verbatim>\<open>pong\<close>, a control request or anything else) makes
  the client write a \<^verbatim>\<open>hello\<close>.
\<close>

theorem hello_follows_auth:
  "take 2 (snd (client_step vr c SocketOpen)) = [authMessage c, helloMessage c]
   \<and> m_type (authMessage c) = Some ''auth''
   \<and> m_type (helloMessage c) = Some ''hello''
   \<and> filter (\<lambda>m. m_type m = Some ''hello'') (snd (client_step vr c (SocketMessage raw))) = []"
proof -
  have hm: "\<And>r. helloMessage (c\<lparr> ws_state := r \<rparr>) = helloMessage c"
    "\<And>r. authMessage (c\<lparr> ws_state := r \<rparr>) = authMessage c"
    by (simp_all add: helloMessage_def authMessage_def Let_def split: option.splits)
  have "client_step vr c SocketOpen = onopen (c\<lparr> ws_state := Some 1 \<rparr>)"
    by (simp add: client_step_def)
  then have a: "take 2 (snd (client_step vr c SocketOpen)) = [authMessage c, helloMessage c]"
    by (simp add: onopen_open hm)
  have b: "filter (\<lambda>m. m_type m = Some ''hello'') (snd (client_step vr c (SocketMessage raw))) = []"
    by (simp add: client_step_def handleIncoming_no_hello)
  from a b helloMessage_type show ?thesis by (simp add: authMessage_def)
qed

text \<open>The amended claim at a fresh client: the first two frames, and an arriving \<^verbatim>\<open>auth_success\<close>.\<close>

theorem hello_follows_auth_witness:
  "map m_type (take 2 (snd (client_step Some (new_client ''secret'' [] ''node'' None) SocketOpen)))
     = [Some ''auth'', Some ''hello'']
   \<and> snd (client_step Some (new_client ''secret'' [] ''node'' None)
            (SocketMessage (Parsed (obj\<lparr> m_type := Some ''auth_success'' \<rparr>)))) = []"
proof -
  have e: "snd (client_step Some (new_client ''secret'' [] ''node'' None)
            (SocketMessage (Parsed (obj\<lparr> m_type := Some ''auth_success'' \<rparr>)))) = []"
    by code_simp
  from hello_follows_auth[of Some "new_client ''secret'' [] ''node'' None" Malformed] e
  show ?thesis by simp
qed

subsection \<open>Reconnecting\<close>

lemma client_run_Cons_fst:
  "fst (client_run vr c (e # es)) = fst (client_run vr (fst (client_step vr c e)) es)"
  by (simp split: prod.splits)

lemma client_run_append:
  "fst (client_run vr c (xs @ ys)) = fst (client_run vr (fst (client_run vr c xs)) ys)"
proof (induction xs arbitrary: c)
  case Nil
  show ?case by simp
next
  case (Cons e es)
  have "fst (client_run vr c ((e # es) @ ys))
        = fst (client_run vr (fst (client_step vr c e)) (es @ ys))"
    by (simp only: append_Cons client_run_Cons_fst)
  also have "\<dots> = fst (client_run vr (fst (client_run vr (fst (client_step vr c e)) es)) ys)"
    by (rule Cons.IH)
  also have "\<dots> = fst (client_run vr (fst (client_run vr c (e # es))) ys)"
    by (simp only: client_run_Cons_fst)
  finally show ?case .
qed

lemma concat_replicate_snoc:
  "concat (replicate (Suc n) xs) = concat (replicate n xs) @ xs"
proof (induction n)
  case 0
  show ?case by simp
next
  case (Suc n)
  have "concat (replicate (Suc (Suc n)) xs) = xs @ concat (replicate (Suc n) xs)"
    by simp
  also have "\<dots> = xs @ (concat (replicate n xs) @ xs)"
    by (simp only: Suc.IH)
  also have "\<dots> = concat (replicate (Suc n) xs) @ xs"
    by simp
  finally show ?case .
qed

lemma failed_attempt_doubles:
  "reconnectDelay (fst (client_run vr c failed_attempt))
     = min (reconnectDelay c * 2) (maxReconnectDelay c)
   \<and> reconnectTimeout (fst (client_run vr c failed_attempt))
     = Some (min (reconnectDelay c * 2) (maxReconnectDelay c))
   \<and> maxReconnectDelay (fst (client_run vr c failed_attempt)) = maxReconnectDelay c"
  by (simp add: failed_attempt_def client_step_def reconnect_timer_def connect_def onerror_def
      stopHeartbeat_def connect_catch_def onclose_def scheduleReconnect_def)

lemma failed_attempt_node_doubles:
  "reconnectDelay (fst (client_run vr c failed_attempt_node))
     = min (reconnectDelay c * 2) (maxReconnectDelay c)
   \<and> reconnectTimeout (fst (client_run vr c failed_attempt_node)) = Some (reconnectDelay c)
   \<and> maxReconnectDelay (fst (client_run vr c failed_attempt_node)) = maxReconnectDelay c"
  by (simp add: failed_attempt_node_def client_step_def reconnect_timer_def connect_def
      onerror_def stopHeartbeat_def connect_catch_def onclose_def scheduleReconnect_def)

lemma backoff_after:
  fixes c0 :: client
  assumes "reconnectDelay c0 = 1000" "maxReconnectDelay c0 = 30000"
    "reconnectTimeout c0 = Some 1000"
  shows "reconnectDelay (fst (client_run vr c0 (concat (replicate n failed_attempt))))
           = min (1000 * 2 ^ n) 30000
       \<and> reconnectTimeout (fst (client_run vr c0 (concat (replicate n failed_attempt))))
           = Some (min (1000 * 2 ^ n) 30000)
       \<and> maxReconnectDelay (fst (client_run vr c0 (concat (replicate n failed_attempt)))) = 30000"
proof (induction n)
  case 0
  with assms show ?case by simp
next
  case (Suc n)
  let ?c = "fst (client_run vr c0 (concat (replicate n failed_attempt)))"
  have split: "concat (replicate (Suc n) failed_attempt)
               = concat (replicate n failed_attempt) @ failed_attempt"
    by (rule concat_replicate_snoc)
  have ar: "min (min (1000 * 2 ^ n) 30000 * 2) 30000 = min (1000 * 2 ^ Suc n) (30000::int)"
    by (simp add: min_def)
  from Suc failed_attempt_doubles[of vr ?c] show ?case
    unfolding split client_run_append by (simp add: ar)
qed

lemma backoff_after_node:
  fixes c0 :: client
  assumes "reconnectDelay c0 = 1000" "maxReconnectDelay c0 = 30000"
  shows "reconnectDelay (fst (client_run vr c0 (concat (replicate n failed_attempt_node))))
           = min (1000 * 2 ^ n) 30000
       \<and> reconnectTimeout
           (fst (client_run vr c0 (concat (replicate (Suc n) failed_attempt_node))))
           = Some (min (1000 * 2 ^ n) 30000)
       \<and> maxReconnectDelay
           (fst (client_run vr c0 (concat (replicate n failed_attempt_node)))) = 30000"
proof (induction n)
  case 0
  from assms failed_attempt_node_doubles[of vr c0] show ?case by simp
next
  case (Suc n)
  let ?c = "fst (client_run vr c0 (concat (replicate n failed_attempt_node)))"
  let ?c' = "fst (client_run vr c0 (concat (replicate (Suc n) failed_attempt_node)))"
  have s1: "?c' = fst (client_run vr ?c failed_attempt_node)"
    by (simp only: concat_replicate_snoc client_run_append)
  have s2: "fst (client_run vr c0 (concat (replicate (Suc (Suc n)) failed_attempt_node)))
            = fst (client_run vr ?c' failed_attempt_node)"
    by (simp only: concat_replicate_snoc client_run_append)
  have ar: "min (min (1000 * 2 ^ n) 30000 * 2) 30000 = min (1000 * 2 ^ Suc n) (30000::int)"
    by (simp add: min_def)
  have d: "reconnectDelay ?c' = min (1000 * 2 ^ Suc n) 30000"
    and m: "maxReconnectDelay ?c' = 30000"
    using Suc failed_attempt_node_doubles[of vr ?c] unfolding s1 by (simp_all add: ar)
  have t: "reconnectTimeout (fst (client_run vr ?c' failed_attempt_node))
           = Some (min (1000 * 2 ^ Suc n) 30000)"
    using failed_attempt_node_doubles[of vr ?c'] d by simp
  from d m t show ?case unfolding s2 by simp
qed

lemma step_keeps_max:
  "maxReconnectDelay (fst (client_step vr c e)) = maxReconnectDelay c"
  by (cases e)
     (auto simp: client_step_def onopen_def startHeartbeat_def stopHeartbeat_def sendHello_def
        flushBuffer_def handleIncoming_def resetHeartbeatTimeout_def setHeartbeatTimeout_def
        onerror_def onclose_def scheduleReconnect_def reconnect_timer_def connect_def
        connect_catch_def sendPing_def heartbeat_expired_def send_def enqueue_def disconnect_def
        Let_def split: prod.splits wsdata.splits option.splits if_splits)

lemma step_keeps_base:
  assumes "e \<noteq> SocketOpen" and "e \<noteq> ConnectRejected"
  shows "reconnectDelay (fst (client_step vr c e)) = reconnectDelay c"
  using assms
  by (cases e)
     (auto simp: client_step_def handleIncoming_def resetHeartbeatTimeout_def
        setHeartbeatTimeout_def stopHeartbeat_def
        onerror_def onclose_def scheduleReconnect_def reconnect_timer_def connect_def
        sendPing_def heartbeat_expired_def send_def enqueue_def disconnect_def
        Let_def split: prod.splits wsdata.splits option.splits if_splits)

lemma step_keeps_timer:
  assumes "e \<noteq> SocketClose" and "e \<noteq> ReconnectTimer" and "e \<noteq> CallDisconnect"
  shows "reconnectTimeout (fst (client_step vr c e)) = reconnectTimeout c"
  using assms
  by (cases e)
     (auto simp: client_step_def onopen_def startHeartbeat_def stopHeartbeat_def sendHello_def
        flushBuffer_def handleIncoming_def resetHeartbeatTimeout_def setHeartbeatTimeout_def
        onerror_def connect_def connect_catch_def sendPing_def heartbeat_expired_def send_def
        enqueue_def Let_def split: prod.splits wsdata.splits option.splits if_splits)

lemma double_capped:
  fixes a m :: int
  assumes "0 \<le> m"
  shows "min (min (a * 2 ^ j) m * 2) m = min (a * 2 ^ Suc j) m"
  using assms by (simp add: min_def)

lemma base_law:
  assumes "SocketOpen \<notin> set es" and "0 \<le> maxReconnectDelay c"
    and "reconnectDelay c = min (a * 2 ^ j) (maxReconnectDelay c)"
  shows "reconnectDelay (fst (client_run vr c es))
           = min (a * 2 ^ (j + count_list es ConnectRejected)) (maxReconnectDelay c)"
  using assms
proof (induction es arbitrary: c j)
  case Nil
  then show ?case by simp
next
  case (Cons e es)
  let ?c1 = "fst (client_step vr c e)"
  have mx: "maxReconnectDelay ?c1 = maxReconnectDelay c" by (rule step_keeps_max)
  have no: "SocketOpen \<notin> set es" and ne: "e \<noteq> SocketOpen" using Cons.prems(1) by auto
  show ?case
  proof (cases "e = ConnectRejected")
    case True
    have "reconnectDelay ?c1 = min (reconnectDelay c * 2) (maxReconnectDelay c)"
      using True by (simp add: client_step_def connect_catch_def)
    also have "\<dots> = min (a * 2 ^ Suc j) (maxReconnectDelay c)"
      using Cons.prems(2,3) double_capped[of "maxReconnectDelay c" a j] by simp
    finally have d: "reconnectDelay ?c1 = min (a * 2 ^ Suc j) (maxReconnectDelay ?c1)"
      using mx by simp
    from Cons.IH[OF no _ d] Cons.prems(2) mx True show ?thesis
      by (simp only: client_run_Cons_fst) simp
  next
    case False
    have d: "reconnectDelay ?c1 = min (a * 2 ^ j) (maxReconnectDelay ?c1)"
      using step_keeps_base[OF ne False, of vr c] Cons.prems(3) mx by simp
    from Cons.IH[OF no _ d] Cons.prems(2) mx False show ?thesis
      by (simp only: client_run_Cons_fst) simp
  qed
qed

lemma close_schedules:
  "reconnectTimeout (fst (client_step vr c SocketClose))
     = Some (case reconnectTimeout c of None \<Rightarrow> reconnectDelay c | Some d \<Rightarrow> d)"
  by (simp add: client_step_def onclose_def stopHeartbeat_def scheduleReconnect_def
      split: option.splits)

lemma lost_socket_state:
  "reconnectDelay (fst (client_run vr (new_client sec caps plat proj) lost_socket)) = 1000
   \<and> maxReconnectDelay (fst (client_run vr (new_client sec caps plat proj) lost_socket)) = 30000
   \<and> reconnectTimeout (fst (client_run vr (new_client sec caps plat proj) lost_socket))
       = Some 1000"
proof -
  let ?c0 = "new_client sec caps plat proj"
  let ?c1 = "fst (client_step vr ?c0 CallConnect)"
  let ?c2 = "fst (client_step vr ?c1 SocketOpen)"
  let ?c3 = "fst (client_step vr ?c2 SocketClose)"
  have r: "fst (client_run vr ?c0 lost_socket) = ?c3"
    by (simp add: lost_socket_def split: prod.splits)
  have t2: "reconnectTimeout ?c2 = None"
    by (simp add: step_keeps_timer new_client_def)
  have d2: "reconnectDelay ?c2 = 1000"
    by (simp add: client_step_def onopen_open)
  have d3: "reconnectDelay ?c3 = 1000"
    using step_keeps_base[of SocketClose vr ?c2] d2 by simp
  have m3: "maxReconnectDelay ?c3 = 30000"
    by (simp add: step_keeps_max new_client_def RECONNECT_MAX_DELAY_MS_def)
  have t3: "reconnectTimeout ?c3 = Some 1000"
    using close_schedules[of vr ?c2] t2 d2 by simp
  from r d3 m3 t3 show ?thesis by simp
qed

text \<open>
  Claim C8 says that the delay slept is the base multiplied by a jitter factor drawn from
  \<open>[1.0, 1.5]\<close>. A fresh client connects, its socket opens and then closes: the client is
  running, the reconnect timer is set to 1000 ms, and for the draw \<open>3/2\<close> the delay in the
  claim's words is 1500 ms.
\<close>

theorem reconnect_jitter_counterexample:
  "ws_state (fst (client_run Some (new_client ''secret'' [] ''node'' None)
                    [CallConnect, SocketOpen])) = Some 1
   \<and> reconnectTimeout
        (fst (client_run Some (new_client ''secret'' [] ''node'' None) lost_socket))
     = Some 1000
   \<and> spec_jittered_delay
        (reconnectDelay
           (fst (client_run Some (new_client ''secret'' [] ''node'' None) lost_socket)))
        (3 / 2) = 1500
   \<and> real_of_int (the (reconnectTimeout
        (fst (client_run Some (new_client ''secret'' [] ''node'' None) lost_socket))))
     \<noteq> spec_jittered_delay
          (reconnectDelay
             (fst (client_run Some (new_client ''secret'' [] ''node'' None) lost_socket)))
          (3 / 2)"
proof -
  have h: "ws_state (fst (client_run Some (new_client ''secret'' [] ''node'' None)
                    [CallConnect, SocketOpen])) = Some 1" by code_simp
  from h lost_socket_state[of Some "''secret''" "[]" "''node''" None]
  show ?thesis by (simp add: spec_jittered_delay_def)
qed

text \<open>
  Claim C8 as amended. On every close while the client is running, that is while it holds
  a socket (\<^verbatim>\<open>disconnect()\<close> sets \<^verbatim>\<open>this.ws\<close> to \<^verbatim>\<open>null\<close>), a reconnect is scheduled: the timer
  is set to the base delay \<^verbatim>\<open>reconnectDelay\<close> as it stands at that moment, exactly, with no
  jitter factor, unless a reconnect is pending already, which stays. The base starts at
  \<^verbatim>\<open>RECONNECT_INITIAL_DELAY_MS = 1000\<close> and doubles on each failed attempt up to the cap
  \<^verbatim>\<open>RECONNECT_MAX_DELAY_MS = 30000\<close>: along every run in which no socket opens it is
  \<open>min (1000 * 2^k) 30000\<close> after \<open>k\<close> rejected attempts, whatever the order of the other
  events, so the base goes through 1, 2, 4, 8, 16, 30, 30 seconds. The delays slept are the
  base at the moment of each close: 1, 1, 2, 4, 8, 16, 30 seconds where \<^verbatim>\<open>onclose\<close> runs
  before the \<^verbatim>\<open>catch\<close> that doubles the base (the \<^verbatim>\<open>ws\<close> package on Node), and
  1, 2, 4, 8, 16, 30, 30 seconds where the \<^verbatim>\<open>catch\<close> runs first. An opened socket sets the
  base to 1000 again.
\<close>

theorem reconnect_backoff:
  assumes "ws_state c \<noteq> None"
  shows "reconnectTimeout (fst (client_step vr c SocketClose))
           = Some (case reconnectTimeout c of None \<Rightarrow> reconnectDelay c | Some d \<Rightarrow> d)
       \<and> reconnectDelay (new_client sec caps plat proj) = RECONNECT_INITIAL_DELAY_MS
       \<and> maxReconnectDelay (new_client sec caps plat proj) = RECONNECT_MAX_DELAY_MS
       \<and> RECONNECT_INITIAL_DELAY_MS = 1000 \<and> RECONNECT_MAX_DELAY_MS = 30000
       \<and> (SocketOpen \<notin> set es
            \<longrightarrow> reconnectDelay (fst (client_run vr (new_client sec caps plat proj) es))
                  = min (1000 * 2 ^ count_list es ConnectRejected) 30000)
       \<and> map (\<lambda>k. reconnectDelay
                  (fst (client_run vr
                          (fst (client_run vr (new_client sec caps plat proj) lost_socket))
                          (concat (replicate k failed_attempt_node)))))
            [0, 1, 2, 3, 4, 5, 6]
         = [1000, 2000, 4000, 8000, 16000, 30000, 30000]
       \<and> map (\<lambda>k. reconnectDelay
                  (fst (client_run vr
                          (fst (client_run vr (new_client sec caps plat proj) lost_socket))
                          (concat (replicate k failed_attempt)))))
            [0, 1, 2, 3, 4, 5, 6]
         = [1000, 2000, 4000, 8000, 16000, 30000, 30000]
       \<and> map (\<lambda>k. reconnectTimeout
                  (fst (client_run vr
                          (fst (client_run vr (new_client sec caps plat proj) lost_socket))
                          (concat (replicate k failed_attempt_node)))))
            [0, 1, 2, 3, 4, 5, 6]
         = [Some 1000, Some 1000, Some 2000, Some 4000, Some 8000, Some 16000, Some 30000]
       \<and> map (\<lambda>k. reconnectTimeout
                  (fst (client_run vr
                          (fst (client_run vr (new_client sec caps plat proj) lost_socket))
                          (concat (replicate k failed_attempt)))))
            [0, 1, 2, 3, 4, 5, 6]
         = [Some 1000, Some 2000, Some 4000, Some 8000, Some 16000, Some 30000, Some 30000]
       \<and> reconnectDelay (fst (client_step vr c SocketOpen)) = 1000"
proof -
  let ?n = "new_client sec caps plat proj"
  let ?c0 = "fst (client_run vr ?n lost_socket)"
  note ls = lost_socket_state[of vr sec caps plat proj]
  have c1: "reconnectTimeout (fst (client_step vr c SocketClose))
           = Some (case reconnectTimeout c of None \<Rightarrow> reconnectDelay c | Some d \<Rightarrow> d)"
    by (rule close_schedules)
  have c2: "reconnectDelay ?n = RECONNECT_INITIAL_DELAY_MS
       \<and> maxReconnectDelay ?n = RECONNECT_MAX_DELAY_MS
       \<and> RECONNECT_INITIAL_DELAY_MS = 1000 \<and> RECONNECT_MAX_DELAY_MS = 30000"
    by (simp add: new_client_def RECONNECT_INITIAL_DELAY_MS_def RECONNECT_MAX_DELAY_MS_def)
  have c3: "SocketOpen \<notin> set es
            \<longrightarrow> reconnectDelay (fst (client_run vr ?n es))
                  = min (1000 * 2 ^ count_list es ConnectRejected) 30000"
  proof
    assume no: "SocketOpen \<notin> set es"
    have m: "0 \<le> maxReconnectDelay ?n" and mv: "maxReconnectDelay ?n = 30000"
      by (simp_all add: new_client_def RECONNECT_MAX_DELAY_MS_def)
    have d: "reconnectDelay ?n = min (1000 * 2 ^ 0) (maxReconnectDelay ?n)"
      by (simp add: new_client_def RECONNECT_INITIAL_DELAY_MS_def RECONNECT_MAX_DELAY_MS_def)
    from base_law[OF no m d, of vr] mv
    show "reconnectDelay (fst (client_run vr ?n es))
          = min (1000 * 2 ^ count_list es ConnectRejected) 30000" by simp
  qed
  have dn: "reconnectDelay (fst (client_run vr ?c0 (concat (replicate k failed_attempt_node))))
            = min (1000 * 2 ^ k) 30000" for k
    using backoff_after_node[of ?c0 vr k] ls by simp
  have tn: "reconnectTimeout
              (fst (client_run vr ?c0 (concat (replicate (Suc k) failed_attempt_node))))
            = Some (min (1000 * 2 ^ k) 30000)" for k
    using backoff_after_node[of ?c0 vr k] ls by simp
  have tn0: "reconnectTimeout (fst (client_run vr ?c0 (concat (replicate 0 failed_attempt_node))))
             = Some 1000"
    using ls by simp
  have dw: "reconnectDelay (fst (client_run vr ?c0 (concat (replicate k failed_attempt))))
            = min (1000 * 2 ^ k) 30000" for k
    using backoff_after[of ?c0 vr k] ls by simp
  have tw: "reconnectTimeout (fst (client_run vr ?c0 (concat (replicate k failed_attempt))))
            = Some (min (1000 * 2 ^ k) 30000)" for k
    using backoff_after[of ?c0 vr k] ls by simp
  have c4: "map (\<lambda>k. reconnectDelay
                  (fst (client_run vr ?c0 (concat (replicate k failed_attempt_node)))))
            [0, 1, 2, 3, 4, 5, 6]
         = [1000, 2000, 4000, 8000, 16000, 30000, 30000]"
    by (simp only: list.map dn) simp
  have c5: "map (\<lambda>k. reconnectDelay
                  (fst (client_run vr ?c0 (concat (replicate k failed_attempt)))))
            [0, 1, 2, 3, 4, 5, 6]
         = [1000, 2000, 4000, 8000, 16000, 30000, 30000]"
    by (simp only: list.map dw) simp
  have c6: "map (\<lambda>k. reconnectTimeout
                  (fst (client_run vr ?c0 (concat (replicate k failed_attempt_node)))))
            [0, 1, 2, 3, 4, 5, 6]
         = [Some 1000, Some 1000, Some 2000, Some 4000, Some 8000, Some 16000, Some 30000]"
    using tn0 tn[of 0] tn[of 1] tn[of 2] tn[of 3] tn[of 4] tn[of 5]
    by (simp add: numeral_2_eq_2 numeral_3_eq_3 eval_nat_numeral)
  have c7: "map (\<lambda>k. reconnectTimeout
                  (fst (client_run vr ?c0 (concat (replicate k failed_attempt)))))
            [0, 1, 2, 3, 4, 5, 6]
         = [Some 1000, Some 2000, Some 4000, Some 8000, Some 16000, Some 30000, Some 30000]"
    by (simp only: list.map tw) simp
  have c8: "reconnectDelay (fst (client_step vr c SocketOpen)) = 1000"
    by (simp add: client_step_def onopen_open)
  from c1 c2 c3 c4 c5 c6 c7 c8 show ?thesis by (intro conjI) simp_all
qed

text \<open>
  The amended claim at a client whose socket is open, when it closes; and the base after a
  first connection that failed and two rejected reconnects, one in each order.
\<close>

theorem reconnect_backoff_witness:
  "ws_state (fst (client_run Some (new_client ''secret'' [] ''node'' None)
                    [CallConnect, SocketOpen])) = Some 1
   \<and> reconnectTimeout
        (fst (client_step Some
                (fst (client_run Some (new_client ''secret'' [] ''node'' None)
                        [CallConnect, SocketOpen]))
                SocketClose))
       = Some 1000
   \<and> reconnectDelay
        (fst (client_run Some (new_client ''secret'' [] ''node'' None)
                [CallConnect, SocketError, SocketClose, ReconnectTimer, SocketError,
                 SocketClose, ConnectRejected, ReconnectTimer, SocketError, ConnectRejected,
                 SocketClose])) = 4000"
proof -
  let ?c = "fst (client_run Some (new_client ''secret'' [] ''node'' None)
                   [CallConnect, SocketOpen])"
  let ?es = "[CallConnect, SocketError, SocketClose, ReconnectTimer, SocketError,
              SocketClose, ConnectRejected, ReconnectTimer, SocketError, ConnectRejected,
              SocketClose]"
  have h: "ws_state ?c = Some 1" by code_simp
  then have h': "ws_state ?c \<noteq> None" by simp
  have t: "reconnectTimeout ?c = None" and d: "reconnectDelay ?c = 1000" by code_simp+
  have no: "SocketOpen \<notin> set ?es" by simp
  have cnt: "count_list ?es ConnectRejected = 2" by simp
  from reconnect_backoff[OF h', of Some "''secret''" "[]" "''node''" None ?es] t d no cnt h
  show ?thesis by simp
qed

end
